theory Spec2Isabelle
  imports Complex_Main "HOL-Library.AList" "HOL-Library.Sublist"
begin

section \<open>JavaScript values\<close>

text \<open>
  A JavaScript number is modelled as a real number or \<open>NaN\<close>. Finite arithmetic is exact:
  rounding of IEEE-754 operations, overflow to an infinity and the sign of zero are not
  part of the model. \<open>NaN\<close> is kept because the code can produce it without any rounding:
  reading a typed array past its end yields \<open>undefined\<close>, and a product with
  \<open>undefined\<close> is \<open>NaN\<close>.
\<close>

datatype number = NaN | Num real

fun nadd :: "number \<Rightarrow> number \<Rightarrow> number" where
  "nadd (Num x) (Num y) = Num (x + y)"
| "nadd _ _ = NaN"

fun nsub :: "number \<Rightarrow> number \<Rightarrow> number" where
  "nsub (Num x) (Num y) = Num (x - y)"
| "nsub _ _ = NaN"

fun nmul :: "number \<Rightarrow> number \<Rightarrow> number" where
  "nmul (Num x) (Num y) = Num (x * y)"
| "nmul _ _ = NaN"

text \<open>
  A \<open>Float32Array\<close> is a list of finite values. \<open>read v i\<close> is the value of the
  expression \<open>v[i]\<close> used as a number.
\<close>

type_synonym float32array = "real list"

definition read :: "float32array \<Rightarrow> nat \<Rightarrow> number" where
  "read v i = (if i < length v then Num (v ! i) else NaN)"

text \<open>
  \<open>xs[i]\<close> on an ordinary array: \<open>None\<close> stands for \<open>undefined\<close>.
\<close>

definition nth_opt :: "'a list \<Rightarrow> nat \<Rightarrow> 'a option" where
  "nth_opt xs i = (if i < length xs then Some (xs ! i) else None)"

text \<open>
  Values found in a parsed frontmatter block. \<open>JOther\<close> stands for arrays, objects and
  dates: the code only ever tests them for truthiness and for their type tag.
\<close>

datatype jvalue = JNull | JBool bool | JNum number | JStr string | JOther

text \<open>
  An object with string keys, in insertion order. \<open>AList.update\<close> is assignment to a
  property: an existing key keeps its place, a new key goes to the end.
\<close>

type_synonym jsobject = "(string \<times> jvalue) list"

datatype error = TypeError | ExtractorError | ParseError | WriteError

section \<open>Data model\<close>

record document =
  path :: string
  content :: string
  frontmatter :: jsobject

text \<open>
  A \<open>SimilarityResult\<close> is the object
  \<open>{...frontmatter, path: targetPath, similarity: score}\<close>.
\<close>

definition similarityEntry :: "document \<Rightarrow> number \<Rightarrow> jsobject" where
  "similarityEntry d s =
     AList.update ''similarity'' (JNum s)
       (AList.update ''path'' (JStr (path d)) (frontmatter d))"

text \<open>
  The property \<open>similarity\<close> of a result, as the comparator reads it. Every result built
  by \<open>similarityEntry\<close> holds a number there; the remaining case is never reached.
\<close>

definition similarity :: "jsobject \<Rightarrow> number" where
  "similarity e = (case map_of e ''similarity'' of Some (JNum x) \<Rightarrow> x | _ \<Rightarrow> NaN)"

section \<open>Rounding to two decimals\<close>

text \<open>
  \<open>parseFloat(x.toFixed(2))\<close> and \<open>+x.toFixed(2)\<close>. \<open>toFixed\<close> works on the absolute
  value: it takes the integer \<open>n\<close> for which \<open>n / 100\<close> is closest to it, the larger one
  on a tie, and puts the sign back. From \<open>10^21\<close> on it prints the number itself, and for
  \<open>NaN\<close> it prints \<open>NaN\<close>; parsing gives the number back.
\<close>

fun toFixed2 :: "number \<Rightarrow> number" where
  "toFixed2 NaN = NaN"
| "toFixed2 (Num x) =
     (if \<bar>x\<bar> \<ge> 10 ^ 21 then Num x
      else Num (sgn x * of_int \<lfloor>\<bar>x\<bar> * 100 + 1 / 2\<rfloor> / 100))"

section \<open>Similarity of two vectors\<close>

text \<open>
  First variant, \<open>cosineSimilarity\<close>: a counting loop over \<open>vecA\<close>. An argument that is
  \<open>undefined\<close> (\<open>None\<close>) raises \<open>TypeError\<close> when a property of it is read:
  \<open>vecA.length\<close> at the loop test, \<open>vecB[i]\<close> in the body.
\<close>

function cosine_loop ::
  "float32array \<Rightarrow> float32array option \<Rightarrow> nat \<Rightarrow> number \<Rightarrow> error + number" where
  "cosine_loop vecA vecB i dotProduct =
     (if i < length vecA then
        (case vecB of
           None \<Rightarrow> Inl TypeError
         | Some b \<Rightarrow>
             cosine_loop vecA vecB (Suc i) (nadd dotProduct (nmul (Num (vecA ! i)) (read b i))))
      else Inr dotProduct)"
  by pat_completeness auto
termination
  by (relation "measure (\<lambda>(vecA, vecB, i, dotProduct). length vecA - i)") auto

declare cosine_loop.simps [simp del]

definition cosineSimilarity ::
  "float32array option \<Rightarrow> float32array option \<Rightarrow> error + number" where
  "cosineSimilarity vecA vecB =
     (case vecA of None \<Rightarrow> Inl TypeError | Some a \<Rightarrow> cosine_loop a vecB 0 (Num 0))"

text \<open>
  Second variant, \<open>dot\<close>: \<open>a.reduce((sum, ai, i) => sum + ai * b[i], 0)\<close>.
  \<open>reduce_from\<close> is \<open>reduce\<close> with the index of the next element made explicit.
\<close>

fun reduce_from ::
  "(number \<Rightarrow> real \<Rightarrow> nat \<Rightarrow> error + number) \<Rightarrow> float32array \<Rightarrow> nat \<Rightarrow> number
     \<Rightarrow> error + number" where
  "reduce_from f [] i acc = Inr acc"
| "reduce_from f (x # xs) i acc =
     (case f acc x i of Inl e \<Rightarrow> Inl e | Inr acc' \<Rightarrow> reduce_from f xs (Suc i) acc')"

definition dot_step :: "float32array option \<Rightarrow> number \<Rightarrow> real \<Rightarrow> nat \<Rightarrow> error + number" where
  "dot_step b acc ai i =
     (case b of None \<Rightarrow> Inl TypeError | Some bv \<Rightarrow> Inr (nadd acc (nmul (Num ai) (read bv i))))"

definition dot :: "float32array option \<Rightarrow> float32array option \<Rightarrow> error + number" where
  "dot a b =
     (case a of None \<Rightarrow> Inl TypeError | Some av \<Rightarrow> reduce_from (dot_step b) av 0 (Num 0))"

section \<open>Sorting and slicing\<close>

text \<open>
  \<open>Array.prototype.sort\<close> with a comparator. The language fixes the result when the
  comparator is consistent: the stable arrangement in which \<open>a\<close> precedes \<open>b\<close> whenever
  the comparator is negative on \<open>(a, b)\<close>. A \<open>NaN\<close> from the comparator counts as
  \<open>0\<close>. The model is the stable insertion sort; with an inconsistent comparator (one that
  meets \<open>NaN\<close>) the language leaves the order to the implementation, and no theorem
  below speaks about that case.
\<close>

definition sortCompare :: "('a \<Rightarrow> 'a \<Rightarrow> number) \<Rightarrow> 'a \<Rightarrow> 'a \<Rightarrow> real" where
  "sortCompare cmp a b = (case cmp a b of NaN \<Rightarrow> 0 | Num v \<Rightarrow> v)"

fun insert_sorted :: "('a \<Rightarrow> 'a \<Rightarrow> number) \<Rightarrow> 'a \<Rightarrow> 'a list \<Rightarrow> 'a list" where
  "insert_sorted cmp x [] = [x]"
| "insert_sorted cmp x (y # ys) =
     (if sortCompare cmp x y \<le> 0 then x # y # ys else y # insert_sorted cmp x ys)"

definition js_sort :: "('a \<Rightarrow> 'a \<Rightarrow> number) \<Rightarrow> 'a list \<Rightarrow> 'a list" where
  "js_sort cmp xs = foldr (insert_sorted cmp) xs []"

text \<open>The comparator of both variants: \<open>(a, b) => b.similarity - a.similarity\<close>.\<close>

definition bySimilarityDesc :: "jsobject \<Rightarrow> jsobject \<Rightarrow> number" where
  "bySimilarityDesc a b = nsub (similarity b) (similarity a)"

text \<open>
  \<open>xs.slice(0, n)\<close> for an integer \<open>n\<close>: a negative end counts from the end of the
  array.
\<close>

definition slice0 :: "'a list \<Rightarrow> int \<Rightarrow> 'a list" where
  "slice0 xs n = (if n < 0 then take (nat (int (length xs) + n)) xs else take (nat n) xs)"

section \<open>Top-N neighbours of one document\<close>

text \<open>
  First variant, \<open>calculateSingleDocSimilarities\<close>: the loop over \<open>j\<close> pushes one entry
  per document other than the source.
\<close>

function similarities_loop ::
  "nat \<Rightarrow> document list \<Rightarrow> float32array list \<Rightarrow> nat \<Rightarrow> jsobject list
     \<Rightarrow> error + jsobject list" where
  "similarities_loop sourceDocIndex allDocuments allEmbeddings j similarities =
     (if j < length allDocuments then
        (if sourceDocIndex = j then
           similarities_loop sourceDocIndex allDocuments allEmbeddings (Suc j) similarities
         else
           (case cosineSimilarity (nth_opt allEmbeddings sourceDocIndex) (nth_opt allEmbeddings j) of
              Inl e \<Rightarrow> Inl e
            | Inr similarityScore \<Rightarrow>
                similarities_loop sourceDocIndex allDocuments allEmbeddings (Suc j)
                  (similarities @ [similarityEntry (allDocuments ! j) (toFixed2 similarityScore)])))
      else Inr similarities)"
  by pat_completeness auto
termination
  by (relation "measure (\<lambda>(s, ds, es, j, acc). length ds - j)") auto

declare similarities_loop.simps [simp del]

definition calculateSingleDocSimilarities ::
  "nat \<Rightarrow> document list \<Rightarrow> float32array list \<Rightarrow> int \<Rightarrow> error + jsobject list" where
  "calculateSingleDocSimilarities sourceDocIndex allDocuments allEmbeddings topN =
     (case similarities_loop sourceDocIndex allDocuments allEmbeddings 0 [] of
        Inl e \<Rightarrow> Inl e
      | Inr similarities \<Rightarrow> Inr (slice0 (js_sort bySimilarityDesc similarities) topN))"

text \<open>
  Second variant, \<open>topSimilar\<close>: \<open>docs.map\<close> with the index, \<open>null\<close> at the source,
  then \<open>filter(Boolean)\<close>, \<open>sort\<close>, \<open>slice\<close>. \<open>map_from\<close> is \<open>map\<close> with the
  index of the next element made explicit; it stops at the first exception.
\<close>

fun map_from :: "('a \<Rightarrow> nat \<Rightarrow> error + 'b) \<Rightarrow> 'a list \<Rightarrow> nat \<Rightarrow> error + 'b list" where
  "map_from f [] j = Inr []"
| "map_from f (d # ds) j =
     (case f d j of
        Inl e \<Rightarrow> Inl e
      | Inr y \<Rightarrow> (case map_from f ds (Suc j) of Inl e \<Rightarrow> Inl e | Inr ys \<Rightarrow> Inr (y # ys)))"

definition topSimilar_entry ::
  "nat \<Rightarrow> float32array list \<Rightarrow> document \<Rightarrow> nat \<Rightarrow> error + jsobject option" where
  "topSimilar_entry idx embs d j =
     (if j = idx then Inr None
      else (case dot (nth_opt embs idx) (nth_opt embs j) of
              Inl e \<Rightarrow> Inl e
            | Inr s \<Rightarrow> Inr (Some (similarityEntry d (toFixed2 s)))))"

text \<open>\<open>filter(Boolean)\<close>: \<open>null\<close> is dropped, every object is kept.\<close>

fun filter_Boolean :: "'a option list \<Rightarrow> 'a list" where
  "filter_Boolean [] = []"
| "filter_Boolean (None # xs) = filter_Boolean xs"
| "filter_Boolean (Some x # xs) = x # filter_Boolean xs"

definition topSimilar ::
  "nat \<Rightarrow> document list \<Rightarrow> float32array list \<Rightarrow> int \<Rightarrow> error + jsobject list" where
  "topSimilar idx docs embs n =
     (case map_from (topSimilar_entry idx embs) docs 0 of
        Inl e \<Rightarrow> Inl e
      | Inr ms \<Rightarrow> Inr (slice0 (js_sort bySimilarityDesc (filter_Boolean ms)) n))"


section \<open>Regular expressions\<close>

text \<open>
  A string is a list of code units; the model covers the code units below 256. The
  patterns of \<open>getPlainText\<close> are embedded as data and run by a backtracking matcher
  that follows the language: alternatives and iterations are tried in priority order, an
  iteration that consumes nothing is rejected, and a lookahead only tests.
\<close>

definition code :: "char \<Rightarrow> nat" where
  "code c = of_char c"

definition is_terminator :: "char \<Rightarrow> bool" where
  "is_terminator c = (c = CHR 0x0A \<or> c = CHR 0x0D)"

definition is_space :: "char \<Rightarrow> bool" where
  "is_space c = (c \<in> {CHR 0x09, CHR 0x0A, CHR 0x0B, CHR 0x0C, CHR 0x0D, CHR 0x20, CHR 0xA0})"

definition is_digit :: "char \<Rightarrow> bool" where
  "is_digit c = (code CHR ''0'' \<le> code c \<and> code c \<le> code CHR ''9'')"

definition is_upper :: "char \<Rightarrow> bool" where
  "is_upper c = (code CHR ''A'' \<le> code c \<and> code c \<le> code CHR ''Z'')"

text \<open>
  Canonicalisation under flag \<open>i\<close>, for the comparison with an ASCII literal: ASCII
  letters are compared in upper case, and no other code unit is mapped to an ASCII letter.
\<close>

definition ascii_upper :: "char \<Rightarrow> char" where
  "ascii_upper c =
     (if code CHR ''a'' \<le> code c \<and> code c \<le> code CHR ''z'' then char_of (code c - 32) else c)"

datatype cclass =
    Lit char          \<comment> \<open>a literal\<close>
  | LitI char         \<comment> \<open>a literal under flag \<open>i\<close>\<close>
  | Dot               \<comment> \<open>\<open>.\<close>: anything but a line terminator\<close>
  | Space             \<comment> \<open>\<open>\s\<close>\<close>
  | Digit             \<comment> \<open>\<open>\d\<close>\<close>
  | UpperOrSpace      \<comment> \<open>\<open>[A-Z\s]\<close>\<close>

fun cmatch :: "cclass \<Rightarrow> char \<Rightarrow> bool" where
  "cmatch (Lit c) x = (x = c)"
| "cmatch (LitI c) x = (ascii_upper x = ascii_upper c)"
| "cmatch Dot x = (\<not> is_terminator x)"
| "cmatch Space x = is_space x"
| "cmatch Digit x = is_digit x"
| "cmatch UpperOrSpace x = (is_upper x \<or> is_space x)"

datatype regex =
    Atom cclass
  | Bol                 \<comment> \<open>\<open>^\<close> under flag \<open>m\<close>\<close>
  | Eol                 \<comment> \<open>\<open>$\<close> under flag \<open>m\<close>\<close>
  | Eps
  | Seq regex regex
  | Alt regex regex
  | Star regex          \<comment> \<open>greedy \<open>*\<close>\<close>
  | LazyStar regex      \<comment> \<open>\<open>*?\<close>\<close>
  | Ahead regex         \<comment> \<open>\<open>(?=...)\<close>\<close>

text \<open>
  \<open>star_greedy step len i\<close>: the ends of \<open>r*\<close> from \<open>i\<close>, in priority order, where
  \<open>step\<close> gives the ends of \<open>r\<close>: first one more iteration (one that consumed
  something), then stopping at \<open>i\<close>. \<open>star_lazy\<close> tries stopping first.
\<close>

function star_greedy :: "(nat \<Rightarrow> nat list) \<Rightarrow> nat \<Rightarrow> nat \<Rightarrow> nat list" where
  "star_greedy step len i =
     concat (map (\<lambda>e. if i < e \<and> e \<le> len then star_greedy step len e else []) (step i)) @ [i]"
  by pat_completeness auto
termination
  by (relation "measure (\<lambda>(step, len, i). len - i)") auto

declare star_greedy.simps [simp del]

function star_lazy :: "(nat \<Rightarrow> nat list) \<Rightarrow> nat \<Rightarrow> nat \<Rightarrow> nat list" where
  "star_lazy step len i =
     i # concat (map (\<lambda>e. if i < e \<and> e \<le> len then star_lazy step len e else []) (step i))"
  by pat_completeness auto
termination
  by (relation "measure (\<lambda>(step, len, i). len - i)") auto

declare star_lazy.simps [simp del]

text \<open>
  \<open>ends r s i\<close>: the positions at which a match of \<open>r\<close> starting at position \<open>i\<close> of
  \<open>s\<close> can end, in the order in which backtracking finds them. The match that the
  language reports at \<open>i\<close> ends at the first of them.
\<close>

primrec ends :: "regex \<Rightarrow> string \<Rightarrow> nat \<Rightarrow> nat list" where
  "ends (Atom c) s i = (if i < length s \<and> cmatch c (s ! i) then [Suc i] else [])"
| "ends Bol s i = (if i = 0 \<or> (i \<le> length s \<and> is_terminator (s ! (i - 1))) then [i] else [])"
| "ends Eol s i = (if length s \<le> i \<or> is_terminator (s ! i) then [i] else [])"
| "ends Eps s i = [i]"
| "ends (Seq r1 r2) s i = concat (map (ends r2 s) (ends r1 s i))"
| "ends (Alt r1 r2) s i = ends r1 s i @ ends r2 s i"
| "ends (Star r) s i = star_greedy (ends r s) (length s) i"
| "ends (LazyStar r) s i = star_lazy (ends r s) (length s) i"
| "ends (Ahead r) s i = (if ends r s i = [] then [] else [i])"

text \<open>
  \<open>s.replace(r, ...)\<close> with flag \<open>g\<close>: scan from the left; at a match, emit the
  replacement (a function of the matched text) and go on behind the match; elsewhere copy
  one code unit. After an empty match the next code unit is copied.
\<close>

function replace_from :: "regex \<Rightarrow> (string \<Rightarrow> string) \<Rightarrow> string \<Rightarrow> nat \<Rightarrow> string" where
  "replace_from r f s i =
     (if length s < i then []
      else (case ends r s i of
              [] \<Rightarrow> (if i < length s then s ! i # replace_from r f s (Suc i) else [])
            | e # _ \<Rightarrow>
                (if i < e \<and> e \<le> length s
                 then f (take (e - i) (drop i s)) @ replace_from r f s e
                 else f [] @ (if i < length s then s ! i # replace_from r f s (Suc i) else []))))"
  by pat_completeness auto
termination
  by (relation "measure (\<lambda>(r, f, s, i). Suc (length s) - i)") auto

declare replace_from.simps [simp del]

definition replaceAll :: "regex \<Rightarrow> (string \<Rightarrow> string) \<Rightarrow> string \<Rightarrow> string" where
  "replaceAll r f s = replace_from r f s 0"

text \<open>\<open>s.trim()\<close> removes white space and line terminators at both ends.\<close>

definition trim :: "string \<Rightarrow> string" where
  "trim s = rev (dropWhile is_space (rev (dropWhile is_space s)))"

section \<open>Plain text of a document body\<close>

fun lit :: "string \<Rightarrow> regex" where
  "lit [] = Eps"
| "lit (c # cs) = Seq (Atom (Lit c)) (lit cs)"

fun liti :: "string \<Rightarrow> regex" where
  "liti [] = Eps"
| "liti (c # cs) = Seq (Atom (LitI c)) (liti cs)"

text \<open>\<open>/^import .*?$/gm\<close> and \<open>/^export .*?$/gm\<close>\<close>

definition importLine :: regex where
  "importLine = Seq Bol (Seq (lit ''import '') (Seq (LazyStar (Atom Dot)) Eol))"

definition exportLine :: regex where
  "exportLine = Seq Bol (Seq (lit ''export '') (Seq (LazyStar (Atom Dot)) Eol))"

text \<open>\<open>/^\s*(TLDR|Introduction|Conclusion|Summary|Quick Setup Guide|Rules?)\s*$/gim\<close>\<close>

definition headingLine :: regex where
  "headingLine =
     Seq Bol (Seq (Star (Atom Space))
       (Seq (Alt (liti ''TLDR'') (Alt (liti ''Introduction'') (Alt (liti ''Conclusion'')
               (Alt (liti ''Summary'') (Alt (liti ''Quick Setup Guide'')
                 (Seq (liti ''Rule'') (Alt (Atom (LitI CHR ''s'')) Eps)))))))
          (Seq (Star (Atom Space)) Eol)))"

text \<open>\<open>/^[A-Z\s]{4,}$/gm\<close>\<close>

definition capsLine :: regex where
  "capsLine =
     Seq Bol (Seq (Atom UpperOrSpace) (Seq (Atom UpperOrSpace) (Seq (Atom UpperOrSpace)
       (Seq (Atom UpperOrSpace) (Seq (Star (Atom UpperOrSpace)) Eol)))))"

text \<open>\<open>/^\|.*\|$/gm\<close>\<close>

definition tableRow :: regex where
  "tableRow =
     Seq Bol (Seq (Atom (Lit CHR ''|'')) (Seq (Star (Atom Dot)) (Seq (Atom (Lit CHR ''|'')) Eol)))"

text \<open>\<open>/(Rule\s\d+:.*)(?=\s*Rule\s\d+:)/g\<close>, replaced by \<open>$1\<close> and a line feed\<close>

definition ruleLabel :: regex where
  "ruleLabel =
     Seq (lit ''Rule'') (Seq (Atom Space) (Seq (Atom Digit) (Seq (Star (Atom Digit))
       (Atom (Lit CHR '':'')))))"

definition ruleMarker :: regex where
  "ruleMarker = Seq (Seq ruleLabel (Star (Atom Dot))) (Ahead (Seq (Star (Atom Space)) ruleLabel))"

text \<open>\<open>/\n{3,}/g\<close>, \<open>/\n{2}/g\<close>, \<open>/\n/g\<close>, \<open>/\s{2,}/g\<close>\<close>

definition LF :: regex where
  "LF = Atom (Lit CHR 0x0A)"

definition breaks3 :: regex where
  "breaks3 = Seq LF (Seq LF (Seq LF (Star LF)))"

definition breaks2 :: regex where
  "breaks2 = Seq LF LF"

definition spaces2 :: regex where
  "spaces2 = Seq (Atom Space) (Seq (Atom Space) (Star (Atom Space)))"

text \<open>
  The chain of replacements of \<open>getPlainText\<close>, the same in both variants, applied to
  the text that the markup stripper returns.
\<close>

definition cleanText :: "string \<Rightarrow> string" where
  "cleanText text =
     trim
      (replaceAll spaces2 (\<lambda>m. '' '')
        (replaceAll LF (\<lambda>m. '' '')
          (replaceAll breaks2 (\<lambda>m. [CHR 0x0A, CHR 0x0A])
            (replaceAll breaks3 (\<lambda>m. [CHR 0x0A, CHR 0x0A])
              (replaceAll ruleMarker (\<lambda>m. m @ [CHR 0x0A])
                (replaceAll tableRow (\<lambda>m. [])
                  (replaceAll capsLine (\<lambda>m. [])
                    (replaceAll headingLine (\<lambda>m. [])
                      (replaceAll exportLine (\<lambda>m. [])
                        (replaceAll importLine (\<lambda>m. []) text))))))))))"

text \<open>
  \<open>getPlainText\<close>. The markup stripper, \<open>remark().use(strip).process\<close> read as a
  string, is a library outside the repository: it is the parameter \<open>strip\<close>, which
  returns the stripped text or raises.
\<close>

definition getPlainText :: "(string \<Rightarrow> error + string) \<Rightarrow> string \<Rightarrow> error + string" where
  "getPlainText strip markdownContent =
     (case strip markdownContent of Inl e \<Rightarrow> Inl e | Inr text \<Rightarrow> Inr (cleanText text))"

section \<open>Corpus result\<close>

text \<open>
  The result object maps a slug to the neighbours of its document; it is a list of
  key-value pairs in insertion order. (The language enumerates keys that look like array
  indices first; the statements below speak of lookups and key sets, not of that order.)

  The key of a document is \<open>doc.frontmatter.slug\<close> converted to a property key. A string
  is its own key and a missing slug gives \<open>undefined\<close>; the conversion of any other value
  is the language's \<open>ToString\<close>, taken as the parameter \<open>toString\<close>.
\<close>

type_synonym results = "(string \<times> jsobject list) list"

definition slugKey :: "(jvalue \<Rightarrow> string) \<Rightarrow> document \<Rightarrow> string" where
  "slugKey toString d =
     (case map_of (frontmatter d) ''slug'' of
        None \<Rightarrow> ''undefined''
      | Some (JStr s) \<Rightarrow> s
      | Some v \<Rightarrow> toString v)"

text \<open>
  \<open>obj[key] = value\<close> on an object created by \<open>{}\<close>. The key \<open>__proto__\<close> is the
  accessor inherited from \<open>Object.prototype\<close>: assigning an array to it replaces the
  prototype and creates no property.
\<close>

definition assign :: "string \<Rightarrow> 'v \<Rightarrow> (string \<times> 'v) list \<Rightarrow> (string \<times> 'v) list" where
  "assign k v obj = (if k = ''__proto__'' then obj else AList.update k v obj)"

text \<open>\<open>xs.forEach((x, i) => ...)\<close> over a state, stopping at the first exception.\<close>

fun forEach_from :: "('a \<Rightarrow> nat \<Rightarrow> 's \<Rightarrow> error + 's) \<Rightarrow> 'a list \<Rightarrow> nat \<Rightarrow> 's \<Rightarrow> error + 's" where
  "forEach_from f [] i st = Inr st"
| "forEach_from f (x # xs) i st =
     (case f x i st of Inl e \<Rightarrow> Inl e | Inr st' \<Rightarrow> forEach_from f xs (Suc i) st')"

text \<open>First variant.\<close>

definition computeAllSimilarities ::
  "(jvalue \<Rightarrow> string) \<Rightarrow> document list \<Rightarrow> float32array list \<Rightarrow> int \<Rightarrow> error + results" where
  "computeAllSimilarities toString documents embeddings topN =
     forEach_from
       (\<lambda>doc i resultsBySlug.
          (case calculateSingleDocSimilarities i documents embeddings topN of
             Inl e \<Rightarrow> Inl e
           | Inr topSimilarDocs \<Rightarrow>
               Inr (assign (slugKey toString doc) topSimilarDocs resultsBySlug)))
       documents 0 []"

text \<open>
  Second variant: \<open>Object.fromEntries\<close> defines each property in turn, \<open>__proto__\<close>
  like any other key.
\<close>

definition fromEntries :: "(string \<times> 'v) list \<Rightarrow> (string \<times> 'v) list" where
  "fromEntries es = foldl (\<lambda>obj (k, v). AList.update k v obj) [] es"

definition allSimilarities ::
  "(jvalue \<Rightarrow> string) \<Rightarrow> document list \<Rightarrow> float32array list \<Rightarrow> int \<Rightarrow> error + results" where
  "allSimilarities toString docs embs n =
     (case map_from
             (\<lambda>d i. (case topSimilar i docs embs n of
                        Inl e \<Rightarrow> Inl e
                      | Inr r \<Rightarrow> Inr (slugKey toString d, r)))
             docs 0 of
        Inl e \<Rightarrow> Inl e
      | Inr es \<Rightarrow> Inr (fromEntries es))"

section \<open>The world outside the program\<close>

text \<open>
  What the run reads from its surroundings: whether loading the model raises, the files
  that the glob finds, the file system, the frontmatter parser (\<open>matter\<close>: body and
  data), the markup stripper, the embedding model, and whether writing the output raises.
\<close>

record embeddingOutput =
  dims :: "nat list option"
  data :: float32array

record env =
  initExtractor :: "error option"
  globFiles :: "error + string list"
  readFileSync :: "string \<Rightarrow> error + string"
  matter :: "string \<Rightarrow> error + string \<times> jsobject"
  strip :: "string \<Rightarrow> error + string"
  extractor :: "string list \<Rightarrow> error + embeddingOutput"
  toString :: "jvalue \<Rightarrow> string"
  writeResults :: "error option"

section \<open>Loading documents\<close>

text \<open>\<open>typeof slug === 'string' && slug\<close>: a string that is not empty.\<close>

fun validSlug :: "jvalue option \<Rightarrow> bool" where
  "validSlug (Some (JStr s)) = (s \<noteq> [])"
| "validSlug _ = False"

text \<open>Truthiness of a property that may be missing.\<close>

fun truthy :: "jvalue option \<Rightarrow> bool" where
  "truthy None = False"
| "truthy (Some JNull) = False"
| "truthy (Some (JBool b)) = b"
| "truthy (Some (JNum NaN)) = False"
| "truthy (Some (JNum (Num x))) = (x \<noteq> 0)"
| "truthy (Some (JStr s)) = (s \<noteq> [])"
| "truthy (Some JOther) = True"

text \<open>
  First variant, \<open>processDocumentFile\<close>. Every exception inside the \<open>try\<close> block gives
  \<open>null\<close>.
\<close>

definition processDocumentFile :: "env \<Rightarrow> string \<Rightarrow> document option" where
  "processDocumentFile w filePath =
     (case readFileSync w filePath of
        Inl e \<Rightarrow> None
      | Inr fileContent \<Rightarrow>
          (case matter w fileContent of
             Inl e \<Rightarrow> None
           | Inr (markdownContent, parsedFrontmatter) \<Rightarrow>
               if \<not> validSlug (map_of parsedFrontmatter ''slug'') then None
               else if map_of parsedFrontmatter ''draft'' = Some (JBool True) then None
               else (case getPlainText (strip w) markdownContent of
                       Inl e \<Rightarrow> None
                     | Inr plainText \<Rightarrow>
                         Some \<lparr>path = filePath, content = plainText,
                               frontmatter = parsedFrontmatter\<rparr>)))"

fun loadAllDocuments :: "env \<Rightarrow> string list \<Rightarrow> document list" where
  "loadAllDocuments w [] = []"
| "loadAllDocuments w (filePath # filePaths) =
     (case processDocumentFile w filePath of
        None \<Rightarrow> loadAllDocuments w filePaths
      | Some doc \<Rightarrow> doc # loadAllDocuments w filePaths)"

text \<open>Second variant, \<open>processFile\<close>: \<open>if (!data.slug || data.draft) return null\<close>.\<close>

definition processFile :: "env \<Rightarrow> string \<Rightarrow> document option" where
  "processFile w p =
     (case readFileSync w p of
        Inl e \<Rightarrow> None
      | Inr text \<Rightarrow>
          (case matter w text of
             Inl e \<Rightarrow> None
           | Inr (body, fm) \<Rightarrow>
               if \<not> truthy (map_of fm ''slug'') \<or> truthy (map_of fm ''draft'') then None
               else (case getPlainText (strip w) body of
                       Inl e \<Rightarrow> None
                     | Inr plain \<Rightarrow> Some \<lparr>path = p, content = plain, frontmatter = fm\<rparr>)))"

fun loadDocs :: "env \<Rightarrow> string list \<Rightarrow> document list" where
  "loadDocs w [] = []"
| "loadDocs w (p # ps) =
     (case processFile w p of None \<Rightarrow> loadDocs w ps | Some d \<Rightarrow> d # loadDocs w ps)"

section \<open>Embeddings\<close>

text \<open>\<open>data.slice(a, b)\<close> on a typed array, for \<open>0 \<le> a \<le> b\<close>: clipped to the buffer.\<close>

definition slice :: "float32array \<Rightarrow> nat \<Rightarrow> nat \<Rightarrow> float32array" where
  "slice xs a b = take (b - a) (drop a xs)"

text \<open>
  First variant, \<open>generateDocumentEmbeddings\<close>: a missing or short \<open>dims\<close> and a count
  that differs from the number of documents are logged, and the function returns the
  empty array.
\<close>

definition generateDocumentEmbeddings ::
  "document list \<Rightarrow> (string list \<Rightarrow> error + embeddingOutput) \<Rightarrow> error + float32array list" where
  "generateDocumentEmbeddings docs extr =
     (if length docs = 0 then Inr []
      else (case extr (map content docs) of
              Inl e \<Rightarrow> Inl e
            | Inr embeddingsOutput \<Rightarrow>
                (case dims embeddingsOutput of
                   None \<Rightarrow> Inr []
                 | Some ds \<Rightarrow>
                     if length ds < 2 then Inr []
                     else
                       let numDocsOutput = ds ! 0; embeddingDim = ds ! 1 in
                       if numDocsOutput \<noteq> length docs then Inr []
                       else Inr (map (\<lambda>i. slice (data embeddingsOutput)
                                            (i * embeddingDim) ((i + 1) * embeddingDim))
                                  [0..<numDocsOutput]))))"

text \<open>
  Second variant. \<open>normalize\<close>: \<open>Math.hypot\<close> of the components; a length that is zero
  returns the vector itself, any other length divides every component by it.
\<close>

definition hypot :: "float32array \<Rightarrow> real" where
  "hypot vec = sqrt (\<Sum>x\<leftarrow>vec. x\<^sup>2)"

definition normalize :: "float32array \<Rightarrow> float32array" where
  "normalize vec = (let len = hypot vec in if len = 0 then vec else map (\<lambda>x. x / len) vec)"

text \<open>
  \<open>embedDocs\<close>: \<open>const [n, dim] = res.dims\<close> raises when \<open>dims\<close> is missing; a missing
  \<open>n\<close> gives no vectors, and with a missing \<open>dim\<close> every slice is \<open>slice(NaN, NaN)\<close>,
  which is empty. Nothing is checked.
\<close>

definition embedDocs ::
  "document list \<Rightarrow> (string list \<Rightarrow> error + embeddingOutput) \<Rightarrow> error + float32array list" where
  "embedDocs docs extr =
     (if length docs = 0 then Inr []
      else (case extr (map content docs) of
              Inl e \<Rightarrow> Inl e
            | Inr res \<Rightarrow>
                (case dims res of
                   None \<Rightarrow> Inl TypeError
                 | Some ds \<Rightarrow>
                     let n = (case nth_opt ds 0 of None \<Rightarrow> 0 | Some n \<Rightarrow> n) in
                     Inr (map (\<lambda>i. normalize
                                 (case nth_opt ds 1 of
                                    None \<Rightarrow> []
                                  | Some d \<Rightarrow> slice (data res) (i * d) ((i + 1) * d)))
                            [0..<n]))))"

section \<open>The run\<close>

text \<open>
  What a run leaves behind: the results written to the output file, if any, and the exit
  code. An exception anywhere is caught at the top, which sets the exit code to 1.
\<close>

record outcome =
  saved :: "results option"
  exitCode :: nat

definition stopped :: outcome where
  "stopped = \<lparr>saved = None, exitCode = 0\<rparr>"

definition failed :: outcome where
  "failed = \<lparr>saved = None, exitCode = 1\<rparr>"

definition TOP_N_RESULTS :: int where
  "TOP_N_RESULTS = 5"

definition saveResultsToFile :: "env \<Rightarrow> results \<Rightarrow> outcome" where
  "saveResultsToFile w res =
     (case writeResults w of
        Some e \<Rightarrow> failed
      | None \<Rightarrow> \<lparr>saved = Some res, exitCode = 0\<rparr>)"

definition runSimilarityAnalysis :: "env \<Rightarrow> outcome" where
  "runSimilarityAnalysis w =
     (case initExtractor w of
        Some e \<Rightarrow> failed
      | None \<Rightarrow>
          (case globFiles w of
             Inl e \<Rightarrow> failed
           | Inr filePaths \<Rightarrow>
               if length filePaths = 0 then stopped
               else
                 let documents = loadAllDocuments w filePaths in
                 if length documents = 0 then stopped
                 else
                   (case generateDocumentEmbeddings documents (extractor w) of
                      Inl e \<Rightarrow> failed
                    | Inr embeddings \<Rightarrow>
                        if length embeddings = 0 \<and> length documents > 0 then stopped
                        else if length embeddings = 0 \<and> length documents = 0 then stopped
                        else
                          (case computeAllSimilarities (toString w) documents embeddings
                                  TOP_N_RESULTS of
                             Inl e \<Rightarrow> failed
                           | Inr similarityResults \<Rightarrow> saveResultsToFile w similarityResults))))"

text \<open>The second variant's \<open>saveJson\<close> and \<open>main\<close>.\<close>

definition TOP_N :: int where
  "TOP_N = 5"

definition saveJson :: "env \<Rightarrow> results \<Rightarrow> outcome" where
  "saveJson w obj =
     (case writeResults w of
        Some e \<Rightarrow> failed
      | None \<Rightarrow> \<lparr>saved = Some obj, exitCode = 0\<rparr>)"

definition main :: "env \<Rightarrow> outcome" where
  "main w =
     (case initExtractor w of
        Some e \<Rightarrow> failed
      | None \<Rightarrow>
          (case globFiles w of
             Inl e \<Rightarrow> failed
           | Inr files \<Rightarrow>
               if length files = 0 then stopped
               else
                 let docs = loadDocs w files in
                 if length docs = 0 then stopped
                 else
                   (case embedDocs docs (extractor w) of
                      Inl e \<Rightarrow> failed
                    | Inr embs \<Rightarrow>
                        if length embs = 0 then stopped
                        else
                          (case allSimilarities (toString w) docs embs TOP_N of
                             Inl e \<Rightarrow> failed
                           | Inr results \<Rightarrow> saveJson w results))))"

section \<open>Vocabulary of the statements\<close>

text \<open>The JavaScript comparison \<open>a >= b\<close> of two numbers: false when either is \<open>NaN\<close>.\<close>

fun ge_number :: "number \<Rightarrow> number \<Rightarrow> bool" where
  "ge_number (Num x) (Num y) = (x \<ge> y)"
| "ge_number _ _ = False"

text \<open>
  The rounded score that both variants store for the pair of documents \<open>(idx, j)\<close>,
  read off \<open>dot\<close>; \<open>NaN\<close> where \<open>dot\<close> raises.
\<close>

definition scoreOf :: "float32array list \<Rightarrow> nat \<Rightarrow> nat \<Rightarrow> number" where
  "scoreOf embs idx j =
     (case dot (nth_opt embs idx) (nth_opt embs j) of Inl e \<Rightarrow> NaN | Inr s \<Rightarrow> toFixed2 s)"

fun numval :: "number \<Rightarrow> real" where
  "numval (Num x) = x"
| "numval NaN = 0"

text \<open>
  The entry that both variants build for document \<open>j\<close> as a neighbour of \<open>idx\<close>, and
  the order in which the indices of the neighbours come out: all indices but \<open>idx\<close>,
  stably sorted by descending rounded score, cut by \<open>slice\<close>.
\<close>

definition entryFor :: "document list \<Rightarrow> float32array list \<Rightarrow> nat \<Rightarrow> nat \<Rightarrow> jsobject" where
  "entryFor docs embs idx j = similarityEntry (docs ! j) (scoreOf embs idx j)"

definition ranking :: "float32array list \<Rightarrow> nat \<Rightarrow> nat \<Rightarrow> int \<Rightarrow> nat list" where
  "ranking embs idx N k =
     slice0 (sort_key (\<lambda>j. - numval (scoreOf embs idx j)) (filter (\<lambda>j. j \<noteq> idx) [0..<N])) k"

section \<open>The corpus of the end-to-end scenario\<close>

definition docA :: document where
  "docA = \<lparr>path = ''a.md'', content = ''alpha'', frontmatter = [(''slug'', JStr ''A'')]\<rparr>"

definition docB :: document where
  "docB = \<lparr>path = ''b.md'', content = ''beta'', frontmatter = [(''slug'', JStr ''B'')]\<rparr>"

definition docC :: document where
  "docC = \<lparr>path = ''c.md'', content = ''gamma'', frontmatter = [(''slug'', JStr ''C'')]\<rparr>"

definition corpus3 :: "document list" where
  "corpus3 = [docA, docB, docC]"

definition embeddings3 :: "float32array list" where
  "embeddings3 = [[1, 0], [0.8, 0.6], [-1, 0]]"

text \<open>The same embeddings as single-precision values.\<close>

definition embeddings3_float32 :: "float32array list" where
  "embeddings3_float32 = [[1, 0], [13421773 / 16777216, 5033165 / 8388608], [-1, 0]]"

text \<open>A neighbour as it is written to the results: slug, path, similarity.\<close>

definition neighbour :: "string \<Rightarrow> string \<Rightarrow> real \<Rightarrow> jsobject" where
  "neighbour s p x = [(''slug'', JStr s), (''path'', JStr p), (''similarity'', JNum (Num x))]"

text \<open>A corpus in which two neighbours of the first document get the same rounded score.\<close>

definition embeddingsTie :: "float32array list" where
  "embeddingsTie = [[1, 0], [0.6, 0.8], [0.6, -0.8]]"

text \<open>A corpus in which two documents carry the slug A.\<close>

definition docA2 :: document where
  "docA2 = \<lparr>path = ''a2.md'', content = ''alpha again'', frontmatter = [(''slug'', JStr ''A'')]\<rparr>"

definition corpusDup :: "document list" where
  "corpusDup = [docA, docA2]"

definition embeddingsDup :: "float32array list" where
  "embeddingsDup = [[1, 0], [0, 1]]"

text \<open>A corpus with distinct slugs, one of which is \<open>__proto__\<close>.\<close>

definition docP :: document where
  "docP = \<lparr>path = ''p.md'', content = ''proto'', frontmatter = [(''slug'', JStr ''__proto__'')]\<rparr>"

definition corpusProto :: "document list" where
  "corpusProto = [docA, docP]"

text \<open>
  \<open>ToString\<close> on the values that occur as slugs in the examples: strings, and the
  number 42.
\<close>

fun exampleToString :: "jvalue \<Rightarrow> string" where
  "exampleToString (JStr s) = s"
| "exampleToString (JNum n) = (if n = Num 42 then ''42'' else ''NaN'')"
| "exampleToString (JBool b) = (if b then ''true'' else ''false'')"
| "exampleToString JNull = ''null''"
| "exampleToString JOther = ''[object Object]''"

text \<open>
  Embedding outputs for three documents: a well-formed one, one with a single dimension,
  and one that holds two vectors only.
\<close>

definition goodOutput :: embeddingOutput where
  "goodOutput = \<lparr>dims = Some [3, 2], data = [1, 0, 0.8, 0.6, -1, 0]\<rparr>"

definition flatOutput :: embeddingOutput where
  "flatOutput = \<lparr>dims = Some [6], data = [1, 0, 0.8, 0.6, -1, 0]\<rparr>"

definition shortOutput :: embeddingOutput where
  "shortOutput = \<lparr>dims = Some [2, 2], data = [1, 0, 0.8, 0.6]\<rparr>"

text \<open>
  A small world: the files \<open>a.md\<close>, \<open>b.md\<close>, \<open>c.md\<close> hold the three documents of the
  scenario, \<open>n.md\<close> has the number 42 as its slug, \<open>d.md\<close> is a draft and \<open>e.md\<close>
  has no slug. A file's text is modelled by its name, the stripper finds no markup, and
  the model answers with \<open>out\<close>.
\<close>

definition exampleMatter :: "string \<Rightarrow> error + string \<times> jsobject" where
  "exampleMatter text =
     (if text = ''a.md'' then Inr (''alpha'', [(''slug'', JStr ''A'')])
      else if text = ''b.md'' then Inr (''beta'', [(''slug'', JStr ''B'')])
      else if text = ''c.md'' then Inr (''gamma'', [(''slug'', JStr ''C'')])
      else if text = ''n.md'' then Inr (''numbered'', [(''slug'', JNum (Num 42))])
      else if text = ''d.md'' then Inr (''draft'', [(''slug'', JStr ''D''), (''draft'', JBool True)])
      else if text = ''e.md'' then Inr (''empty'', [(''title'', JStr ''E'')])
      else Inl ParseError)"

definition exampleWorld :: "string list \<Rightarrow> embeddingOutput \<Rightarrow> env" where
  "exampleWorld files out =
     \<lparr>initExtractor = None, globFiles = Inr files, readFileSync = Inr,
      matter = exampleMatter, strip = Inr, extractor = (\<lambda>texts. Inr out),
      toString = exampleToString, writeResults = None\<rparr>"

definition worldGood :: env where
  "worldGood = exampleWorld [''a.md'', ''b.md'', ''c.md''] goodOutput"

definition worldFlat :: env where
  "worldFlat = exampleWorld [''a.md'', ''b.md'', ''c.md''] flatOutput"

definition worldShort :: env where
  "worldShort = exampleWorld [''a.md'', ''b.md'', ''c.md''] shortOutput"

definition worldNumeric :: env where
  "worldNumeric = exampleWorld [''a.md'', ''n.md''] \<lparr>dims = Some [2, 2], data = [1, 0, 0, 1]\<rparr>"

text \<open>
  An embedding output is malformed for \<open>n\<close> documents when \<open>dims\<close> is missing or has
  fewer than two entries, or when its first entry is not \<open>n\<close>.
\<close>

definition malformed :: "embeddingOutput \<Rightarrow> nat \<Rightarrow> bool" where
  "malformed out n =
     (case dims out of None \<Rightarrow> True | Some ds \<Rightarrow> length ds < 2 \<or> ds ! 0 \<noteq> n)"

text \<open>
  The neighbours of document \<open>i\<close> (the empty list where \<open>topSimilar\<close> raises), and
  the key-value pairs of the corpus result before they are put into the object.
\<close>

definition neighboursOf :: "document list \<Rightarrow> float32array list \<Rightarrow> int \<Rightarrow> nat \<Rightarrow> jsobject list" where
  "neighboursOf docs embs k i = (case topSimilar i docs embs k of Inl e \<Rightarrow> [] | Inr r \<Rightarrow> r)"

definition slugEntries ::
  "(jvalue \<Rightarrow> string) \<Rightarrow> document list \<Rightarrow> float32array list \<Rightarrow> int \<Rightarrow> (string \<times> jsobject list) list" where
  "slugEntries ts docs embs k =
     map (\<lambda>i. (slugKey ts (docs ! i), neighboursOf docs embs k i)) [0..<length docs]"

section \<open>Vocabulary for the plain text\<close>

text \<open>
  \<open>nowhere r s\<close>: the pattern \<open>r\<close> matches at no position of \<open>s\<close>. A text is free of
  boilerplate when none of the six patterns that \<open>getPlainText\<close> applies before it
  normalises white space matches in it.
\<close>

definition nowhere :: "regex \<Rightarrow> string \<Rightarrow> bool" where
  "nowhere r s = list_all (\<lambda>i. ends r s i = []) [0..<Suc (length s)]"

definition boilerplateFree :: "string \<Rightarrow> bool" where
  "boilerplateFree s =
     (nowhere importLine s \<and> nowhere exportLine s \<and> nowhere headingLine s
      \<and> nowhere capsLine s \<and> nowhere tableRow s \<and> nowhere ruleMarker s)"

text \<open>
  A text is tidy when it has no line feed, no two white-space characters in a row, and no
  white space at either end.
\<close>

definition notBothSpaces :: "char \<Rightarrow> char \<Rightarrow> bool" where
  "notBothSpaces c d = (\<not> (is_space c \<and> is_space d))"

definition tidy :: "string \<Rightarrow> bool" where
  "tidy s =
     (CHR 0x0A \<notin> set s \<and> successively notBothSpaces s
      \<and> (s = [] \<or> (\<not> is_space (hd s) \<and> \<not> is_space (last s))))"

text \<open>The end of the run of white space that starts at position \<open>i\<close>.\<close>

definition run_end :: "string \<Rightarrow> nat \<Rightarrow> nat" where
  "run_end s i = i + length (takeWhile is_space (drop i s))"

text \<open>The replacement of \<open>/\s{2,}/g\<close> by one blank, from position \<open>i\<close> on.\<close>

abbreviation collapse_from :: "string \<Rightarrow> nat \<Rightarrow> string" where
  "collapse_from s i \<equiv> replace_from spaces2 (\<lambda>m. '' '') s i"

text \<open>
  Two strippers for texts without markup: one returns the text as it is, the other, like
  a printer of paragraphs, ends it with a line feed. And two texts: \<open>import\<close> and
  \<open>foo\<close> on two lines, and a greeting with a run of blanks and an empty line.
\<close>

definition printedParagraph :: "string \<Rightarrow> error + string" where
  "printedParagraph s = Inr (s @ [CHR 0x0A])"

definition importFoo :: string where
  "importFoo = ''import'' @ [CHR 0x0A] @ ''foo''"

definition greeting :: string where
  "greeting = ''Hello   world'' @ [CHR 0x0A, CHR 0x0A] @ ''again''"

section \<open>The two variants compute the same neighbours\<close>

lemma dot_step_simps [simp]:
  "dot_step None acc ai i = Inl TypeError"
  "dot_step (Some bv) acc ai i = Inr (nadd acc (nmul (Num ai) (read bv i)))"
  by (simp_all add: dot_step_def)

lemma cosine_loop_reduce:
  "cosine_loop a b i acc = reduce_from (dot_step b) (drop i a) i acc"
proof (induction a b i acc rule: cosine_loop.induct)
  case (1 vecA vecB i dotProduct)
  show ?case
  proof (cases "i < length vecA")
    case True
    then have d: "drop i vecA = vecA ! i # drop (Suc i) vecA"
      by (simp add: Cons_nth_drop_Suc)
    show ?thesis
    proof (cases vecB)
      case None
      with True d show ?thesis
        by (subst cosine_loop.simps) simp
    next
      case (Some b)
      let ?acc = "nadd dotProduct (nmul (Num (vecA ! i)) (read b i))"
      have "cosine_loop vecA vecB i dotProduct = cosine_loop vecA vecB (Suc i) ?acc"
        using True Some by (subst cosine_loop.simps) simp
      also have "\<dots> = reduce_from (dot_step vecB) (drop (Suc i) vecA) (Suc i) ?acc"
        by (rule "1.IH" [OF True Some])
      also have "\<dots> = reduce_from (dot_step vecB) (drop i vecA) i dotProduct"
        unfolding d Some by simp
      finally show ?thesis .
    qed
  next
    case False
    then show ?thesis
      by (subst cosine_loop.simps) simp
  qed
qed

lemma cosineSimilarity_dot: "cosineSimilarity a b = dot a b"
  by (simp add: cosineSimilarity_def dot_def cosine_loop_reduce split: option.splits)

lemma similarities_loop_map_from:
  "similarities_loop src docs embs j acc =
     (case map_from (topSimilar_entry src embs) (drop j docs) j of
        Inl e \<Rightarrow> Inl e
      | Inr ms \<Rightarrow> Inr (acc @ filter_Boolean ms))"
proof (induction src docs embs j acc rule: similarities_loop.induct)
  case (1 src docs embs j acc)
  show ?case
  proof (cases "j < length docs")
    case True
    then have d: "drop j docs = docs ! j # drop (Suc j) docs"
      by (simp add: Cons_nth_drop_Suc)
    show ?thesis
    proof (cases "src = j")
      case eq: True
      have "similarities_loop src docs embs j acc = similarities_loop src docs embs (Suc j) acc"
        using True eq by (subst similarities_loop.simps) simp
      also have "\<dots> = (case map_from (topSimilar_entry src embs) (drop (Suc j) docs) (Suc j) of
          Inl e \<Rightarrow> Inl e | Inr ms \<Rightarrow> Inr (acc @ filter_Boolean ms))"
        using "1.IH"(1) [OF True eq] .
      also have "\<dots> = (case map_from (topSimilar_entry src embs) (drop j docs) j of
          Inl e \<Rightarrow> Inl e | Inr ms \<Rightarrow> Inr (acc @ filter_Boolean ms))"
        using eq by (simp add: d topSimilar_entry_def split: sum.splits)
      finally show ?thesis .
    next
      case False
      show ?thesis
      proof (cases "dot (nth_opt embs src) (nth_opt embs j)")
        case (Inl e)
        have "similarities_loop src docs embs j acc = Inl e"
          using True False Inl by (subst similarities_loop.simps) (simp add: cosineSimilarity_dot)
        with False Inl show ?thesis
          by (simp add: d topSimilar_entry_def)
      next
        case (Inr s)
        then have c: "cosineSimilarity (nth_opt embs src) (nth_opt embs j) = Inr s"
          by (simp add: cosineSimilarity_dot)
        have "similarities_loop src docs embs j acc =
            similarities_loop src docs embs (Suc j)
              (acc @ [similarityEntry (docs ! j) (toFixed2 s)])"
          using True False c by (subst similarities_loop.simps) simp
        also have "\<dots> = (case map_from (topSimilar_entry src embs) (drop (Suc j) docs) (Suc j) of
            Inl e \<Rightarrow> Inl e
          | Inr ms \<Rightarrow> Inr ((acc @ [similarityEntry (docs ! j) (toFixed2 s)]) @ filter_Boolean ms))"
          using "1.IH"(2) [OF True False c] .
        also have "\<dots> = (case map_from (topSimilar_entry src embs) (drop j docs) j of
            Inl e \<Rightarrow> Inl e | Inr ms \<Rightarrow> Inr (acc @ filter_Boolean ms))"
          using False Inr by (simp add: d topSimilar_entry_def split: sum.splits)
        finally show ?thesis .
      qed
    qed
  next
    case False
    then show ?thesis
      by (subst similarities_loop.simps) simp
  qed
qed

lemma variants_equal:
  "calculateSingleDocSimilarities i docs embs k = topSimilar i docs embs k"
  by (simp add: calculateSingleDocSimilarities_def topSimilar_def similarities_loop_map_from
      split: sum.splits)

text \<open>
  Claim C10. \<open>calculateSingleDocSimilarities\<close> (loop, first variant) and \<open>topSimilar\<close>
  (map, filter, sort, slice, second variant) return the same value on every input: the
  same list of results in the same order, or the same exception.
\<close>

theorem variants_agree:
  "calculateSingleDocSimilarities i docs embs k = topSimilar i docs embs k"
  by (rule variants_equal)

section \<open>No exception when every document has an embedding\<close>

lemma reduce_from_total: "\<exists>r. reduce_from (dot_step (Some b)) a i acc = Inr r"
  by (induction a arbitrary: i acc) simp_all

lemma dot_total: "\<exists>r. dot (Some a) (Some b) = Inr r"
  by (simp add: dot_def reduce_from_total)

lemma topSimilar_entry_total:
  assumes "idx < length embs" "j < length embs"
  shows "\<exists>m. topSimilar_entry idx embs d j = Inr m"
proof -
  from dot_total [of "embs ! idx" "embs ! j"] assms
  obtain r where "dot (nth_opt embs idx) (nth_opt embs j) = Inr r"
    by (auto simp: nth_opt_def)
  then show ?thesis by (simp add: topSimilar_entry_def)
qed

lemma map_from_defined:
  "(\<And>i. i < length ds \<Longrightarrow> \<exists>y. f (ds ! i) (j + i) = Inr y) \<Longrightarrow> \<exists>ys. map_from f ds j = Inr ys"
proof (induction ds arbitrary: j)
  case Nil
  then show ?case by simp
next
  case (Cons d ds)
  from Cons.prems [of 0] obtain y where hd: "f d j = Inr y" by auto
  have "\<And>i. i < length ds \<Longrightarrow> \<exists>y. f (ds ! i) (Suc j + i) = Inr y"
    using Cons.prems [of "Suc _"] by simp
  from Cons.IH [OF this] obtain ys where "map_from f ds (Suc j) = Inr ys" by blast
  with hd show ?case by simp
qed

lemma topSimilar_total:
  assumes "idx < length docs" "length embs = length docs"
  shows "\<exists>rs. topSimilar idx docs embs k = Inr rs"
proof -
  have "\<exists>ms. map_from (topSimilar_entry idx embs) docs 0 = Inr ms"
    by (rule map_from_defined) (use assms in \<open>simp add: topSimilar_entry_total\<close>)
  then show ?thesis by (auto simp: topSimilar_def)
qed

section \<open>The neighbours of one document, in closed form\<close>

lemma reduce_from_Some:
  "i + length a \<le> length b \<Longrightarrow>
   \<exists>r. reduce_from (dot_step (Some b)) a i (Num x) = Inr (Num r)"
proof (induction a arbitrary: i x)
  case Nil
  then show ?case by simp
next
  case (Cons y a)
  then have "i < length b" and "Suc i + length a \<le> length b" by simp_all
  with Cons.IH [of "Suc i" "x + y * b ! i"] show ?case
    by (simp add: read_def)
qed

lemma dot_defined:
  assumes "length a \<le> length b"
  shows "\<exists>r. dot (Some a) (Some b) = Inr (Num r)"
  using reduce_from_Some [of 0 a b 0] assms by (simp add: dot_def)

lemma toFixed2_Num: "toFixed2 (Num x) = Num (numval (toFixed2 (Num x)))"
  by simp

lemma similarity_similarityEntry [simp]: "similarity (similarityEntry d s) = s"
  by (simp add: similarity_def similarityEntry_def update_conv')

lemma dot_aligned:
  assumes "i < length embs" "j < length embs" "\<forall>v\<in>set embs. length v = D"
  shows "\<exists>r. dot (nth_opt embs i) (nth_opt embs j) = Inr (Num r)"
proof -
  from assms have "length (embs ! i) \<le> length (embs ! j)" by simp
  from dot_defined [OF this] assms(1,2) show ?thesis by (simp add: nth_opt_def)
qed

lemma scoreOf_Num:
  assumes "i < length embs" "j < length embs" "\<forall>v\<in>set embs. length v = D"
  shows "scoreOf embs i j = Num (numval (scoreOf embs i j))"
proof -
  from dot_aligned [OF assms] obtain r where "dot (nth_opt embs i) (nth_opt embs j) = Inr (Num r)" ..
  then have "scoreOf embs i j = toFixed2 (Num r)" by (simp add: scoreOf_def)
  then show ?thesis using toFixed2_Num [of r] by simp
qed

lemma topSimilar_entry_aligned:
  assumes "i < length embs" "j < length embs" "\<forall>v\<in>set embs. length v = D"
  shows "topSimilar_entry i embs d j =
           Inr (if j = i then None else Some (similarityEntry d (scoreOf embs i j)))"
proof -
  from dot_aligned [OF assms] obtain r where "dot (nth_opt embs i) (nth_opt embs j) = Inr (Num r)" ..
  then show ?thesis by (simp add: topSimilar_entry_def scoreOf_def)
qed

lemma map_from_total:
  "(\<And>i. i < length ds \<Longrightarrow> f (ds ! i) (j + i) = Inr (g (ds ! i) (j + i))) \<Longrightarrow>
   map_from f ds j = Inr (map (\<lambda>i. g (ds ! i) (j + i)) [0..<length ds])"
proof (induction ds arbitrary: j)
  case Nil
  then show ?case by simp
next
  case (Cons d ds)
  have hd: "f d j = Inr (g d j)" using Cons.prems [of 0] by simp
  have "\<And>i. i < length ds \<Longrightarrow> f (ds ! i) (Suc j + i) = Inr (g (ds ! i) (Suc j + i))"
    using Cons.prems [of "Suc _"] by simp
  from Cons.IH [OF this]
  have tl: "map_from f ds (Suc j) = Inr (map (\<lambda>i. g (ds ! i) (Suc j + i)) [0..<length ds])" .
  have "[0..<length (d # ds)] = 0 # map Suc [0..<length ds]"
    by (simp add: upt_conv_Cons map_Suc_upt del: upt_Suc)
  then show ?case using hd tl by (simp add: comp_def del: upt_Suc)
qed

lemma filter_Boolean_map:
  "filter_Boolean (map (\<lambda>i. if i = idx then None else Some (E i)) xs) =
     map E (filter (\<lambda>i. i \<noteq> idx) xs)"
  by (induction xs) simp_all

lemma candidates_aligned:
  assumes "idx < length docs" "length embs = length docs" "\<forall>v\<in>set embs. length v = D"
  shows "map_from (topSimilar_entry idx embs) docs 0 =
           Inr (map (\<lambda>j. if j = idx then None else Some (entryFor docs embs idx j))
                  [0..<length docs])"
proof -
  have "map_from (topSimilar_entry idx embs) docs 0 =
      Inr (map (\<lambda>i. (\<lambda>d j. if j = idx then None else Some (similarityEntry d (scoreOf embs idx j)))
                 (docs ! i) (0 + i)) [0..<length docs])"
    by (rule map_from_total) (use assms in \<open>simp add: topSimilar_entry_aligned [OF _ _ assms(3)]\<close>)
  then show ?thesis by (simp add: entryFor_def)
qed


lemma sortCompare_bySimilarityDesc:
  assumes "similarity a = Num x" "similarity b = Num y"
  shows "sortCompare bySimilarityDesc a b \<le> 0 \<longleftrightarrow> - x \<le> - y"
  using assms by (simp add: sortCompare_def bySimilarityDesc_def)

lemma insert_sorted_map:
  assumes "\<And>j. j \<in> insert x (set ys) \<Longrightarrow> similarity (E j) = Num (s j)"
  shows "insert_sorted bySimilarityDesc (E x) (map E ys) = map E (insort_key (\<lambda>j. - s j) x ys)"
  using assms
proof (induction ys)
  case Nil
  then show ?case by simp
next
  case (Cons y ys)
  have c: "sortCompare bySimilarityDesc (E x) (E y) \<le> 0 \<longleftrightarrow> - s x \<le> - s y"
    by (rule sortCompare_bySimilarityDesc) (simp_all add: Cons.prems)
  have "insert_sorted bySimilarityDesc (E x) (map E ys) = map E (insort_key (\<lambda>j. - s j) x ys)"
    by (rule Cons.IH) (use Cons.prems in auto)
  with c show ?case by simp
qed

lemma js_sort_map:
  assumes "\<And>j. j \<in> set xs \<Longrightarrow> similarity (E j) = Num (s j)"
  shows "js_sort bySimilarityDesc (map E xs) = map E (sort_key (\<lambda>j. - s j) xs)"
  using assms
proof (induction xs)
  case Nil
  then show ?case by (simp add: js_sort_def)
next
  case (Cons x xs)
  have ih: "js_sort bySimilarityDesc (map E xs) = map E (sort_key (\<lambda>j. - s j) xs)"
    by (rule Cons.IH) (simp add: Cons.prems)
  have "js_sort bySimilarityDesc (map E (x # xs)) =
      insert_sorted bySimilarityDesc (E x) (js_sort bySimilarityDesc (map E xs))"
    by (simp add: js_sort_def)
  also have "\<dots> = insert_sorted bySimilarityDesc (E x) (map E (sort_key (\<lambda>j. - s j) xs))"
    by (simp only: ih)
  also have "\<dots> = map E (insort_key (\<lambda>j. - s j) x (sort_key (\<lambda>j. - s j) xs))"
    by (rule insert_sorted_map) (auto simp: Cons.prems)
  finally show ?case by simp
qed

lemma slice0_map: "slice0 (map f xs) k = map f (slice0 xs k)"
  by (simp add: slice0_def take_map)

lemma topSimilar_ranking:
  assumes "idx < length docs" "length embs = length docs" "\<forall>v\<in>set embs. length v = D"
  shows "topSimilar idx docs embs k =
           Inr (map (entryFor docs embs idx) (ranking embs idx (length docs) k))"
proof -
  let ?cand = "filter (\<lambda>j. j \<noteq> idx) [0..<length docs]"
  have sim: "similarity (entryFor docs embs idx j) = Num (numval (scoreOf embs idx j))"
    if "j \<in> set ?cand" for j
  proof -
    from that assms have "j < length embs" "idx < length embs" by simp_all
    from scoreOf_Num [OF this(2) this(1) assms(3)] show ?thesis
      by (simp add: entryFor_def)
  qed
  have "js_sort bySimilarityDesc (map (entryFor docs embs idx) ?cand) =
      map (entryFor docs embs idx) (sort_key (\<lambda>j. - numval (scoreOf embs idx j)) ?cand)"
    by (rule js_sort_map) (rule sim)
  then show ?thesis
    by (simp add: topSimilar_def candidates_aligned [OF assms] filter_Boolean_map slice0_map
        ranking_def del: upt_Suc)
qed

lemma calculateSingleDocSimilarities_ranking:
  assumes "idx < length docs" "length embs = length docs" "\<forall>v\<in>set embs. length v = D"
  shows "calculateSingleDocSimilarities idx docs embs k =
           Inr (map (entryFor docs embs idx) (ranking embs idx (length docs) k))"
  using topSimilar_ranking [OF assms, of k]
  by (simp add: calculateSingleDocSimilarities_def topSimilar_def similarities_loop_map_from
      split: sum.splits)

lemma set_slice0: "set (slice0 xs k) \<subseteq> set xs"
  by (auto simp: slice0_def dest: in_set_takeD)

lemma distinct_slice0: "distinct xs \<Longrightarrow> distinct (slice0 xs k)"
  by (simp add: slice0_def)

lemma length_slice0: "0 \<le> k \<Longrightarrow> int (length (slice0 xs k)) = min k (int (length xs))"
  by (auto simp: slice0_def min_def)

lemma length_candidates: "idx < N \<Longrightarrow> length (filter (\<lambda>j. j \<noteq> idx) [0..<N]) = N - 1"
proof -
  assume "idx < N"
  have "[0..<N] = [0..<idx] @ idx # [Suc idx..<N]"
    using \<open>idx < N\<close> by (metis le0 less_imp_le_nat upt_add_eq_append upt_conv_Cons le_add_diff_inverse)
  then have "filter (\<lambda>j. j \<noteq> idx) [0..<N] = [0..<idx] @ [Suc idx..<N]"
    by (simp add: filter_id_conv)
  then show ?thesis using \<open>idx < N\<close> by simp
qed

lemma ranking_set: "set (ranking embs idx N k) \<subseteq> {j. j < N \<and> j \<noteq> idx}"
  using set_slice0 [of "sort_key (\<lambda>j. - numval (scoreOf embs idx j)) (filter (\<lambda>j. j \<noteq> idx) [0..<N])" k]
  by (auto simp: ranking_def)

lemma ranking_distinct: "distinct (ranking embs idx N k)"
  by (simp add: ranking_def distinct_slice0)

lemma ranking_length:
  "idx < N \<Longrightarrow> 0 \<le> k \<Longrightarrow> int (length (ranking embs idx N k)) = min k (int N - 1)"
  by (simp add: ranking_def length_slice0 length_candidates)

section \<open>Properties of the neighbour list\<close>

lemma insort_key_ties:
  assumes "\<forall>y\<in>set ys. x < y" "sorted_wrt (\<lambda>a b. g a = g b \<longrightarrow> a < b) ys"
  shows "sorted_wrt (\<lambda>a b. g a = g b \<longrightarrow> a < b) (insort_key g x ys)"
  using assms by (induction ys) (auto simp: set_insort_key)

lemma sort_key_ties:
  fixes xs :: "nat list"
  assumes "sorted_wrt (<) xs"
  shows "sorted_wrt (\<lambda>a b. g a = g b \<longrightarrow> a < b) (sort_key g xs)"
  using assms
proof (induction xs)
  case Nil
  then show ?case by simp
next
  case (Cons x xs)
  then have "\<forall>y\<in>set (sort_key g xs). x < y" by simp
  moreover have "sorted_wrt (\<lambda>a b. g a = g b \<longrightarrow> a < b) (sort_key g xs)"
    using Cons by simp
  ultimately show ?case by (simp add: insort_key_ties)
qed

lemma sorted_wrt_slice0: "sorted_wrt R xs \<Longrightarrow> sorted_wrt R (slice0 xs k)"
  by (simp add: slice0_def)

lemma ranking_ties:
  "sorted_wrt (\<lambda>a b. numval (scoreOf embs idx a) = numval (scoreOf embs idx b) \<longrightarrow> a < b)
     (ranking embs idx N k)"
proof -
  have "sorted_wrt (<) (filter (\<lambda>j. j \<noteq> idx) [0..<N])"
    by (simp add: sorted_wrt_filter)
  from sort_key_ties [OF this, of "\<lambda>j. - numval (scoreOf embs idx j)"]
  show ?thesis unfolding ranking_def by (auto intro!: sorted_wrt_slice0 elim: sorted_wrt_mono_rel [rotated])
qed

lemma ranking_sorted:
  "sorted_wrt (\<lambda>a b. numval (scoreOf embs idx a) \<ge> numval (scoreOf embs idx b))
     (ranking embs idx N k)"
proof -
  let ?g = "\<lambda>j. - numval (scoreOf embs idx j)"
  have "sorted (map ?g (sort_key ?g (filter (\<lambda>j. j \<noteq> idx) [0..<N])))"
    by (rule sorted_sort_key)
  then have "sorted_wrt (\<lambda>a b. ?g a \<le> ?g b) (sort_key ?g (filter (\<lambda>j. j \<noteq> idx) [0..<N]))"
    by (simp add: sorted_map)
  then show ?thesis unfolding ranking_def by (auto intro!: sorted_wrt_slice0)
qed

lemma entryFor_is_entry:
  assumes "idx < length embs" "j < length embs" "\<forall>v\<in>set embs. length v = D" "j \<noteq> idx"
  shows "topSimilar_entry idx embs (docs ! j) j = Inr (Some (entryFor docs embs idx j))"
  using topSimilar_entry_aligned [OF assms(1-3)] assms(4) by (simp add: entryFor_def)

lemma similarity_entryFor:
  assumes "idx < length embs" "j < length embs" "\<forall>v\<in>set embs. length v = D"
  shows "similarity (entryFor docs embs idx j) = Num (numval (scoreOf embs idx j))"
  using scoreOf_Num [OF assms] by (simp add: entryFor_def)

text \<open>
  Claim C1. For an in-range source index, one embedding per document and embeddings of one
  dimension \<open>D\<close>, both variants return the same list \<open>rs\<close>. Its entries are the
  entries the code builds for pairwise distinct documents \<open>js\<close>, none of them the source;
  for a count \<open>k \<ge> 0\<close> the list has at most \<open>min k (N - 1)\<close> entries; and the
  similarities never increase along the list. (No list has a negative length, so the bound
  is read for counts; \<open>slice\<close> with a negative end drops from the end instead.)
\<close>

theorem topSimilar_excludes_source_bounded_sorted:
  assumes "idx < length docs" "length embs = length docs" "\<forall>v\<in>set embs. length v = D"
    and "0 \<le> k"
  shows "\<exists>rs js. topSimilar idx docs embs k = Inr rs
           \<and> calculateSingleDocSimilarities idx docs embs k = Inr rs
           \<and> length js = length rs \<and> distinct js \<and> idx \<notin> set js
           \<and> (\<forall>p<length rs. js ! p < length docs
                 \<and> topSimilar_entry idx embs (docs ! (js ! p)) (js ! p) = Inr (Some (rs ! p)))
           \<and> int (length rs) \<le> min k (int (length docs) - 1)
           \<and> sorted_wrt (\<lambda>a b. ge_number (similarity a) (similarity b)) rs"
proof -
  let ?js = "ranking embs idx (length docs) k"
  let ?rs = "map (entryFor docs embs idx) ?js"
  have in_js: "j < length docs \<and> j \<noteq> idx" if "j \<in> set ?js" for j
    using ranking_set [of embs idx "length docs" k] that by auto
  have 1: "topSimilar idx docs embs k = Inr ?rs"
    by (rule topSimilar_ranking [OF assms(1-3)])
  have 2: "calculateSingleDocSimilarities idx docs embs k = Inr ?rs"
    by (rule calculateSingleDocSimilarities_ranking [OF assms(1-3)])
  have 3: "idx \<notin> set ?js" using in_js by blast
  have 4: "\<forall>p<length ?rs. ?js ! p < length docs
      \<and> topSimilar_entry idx embs (docs ! (?js ! p)) (?js ! p) = Inr (Some (?rs ! p))"
  proof (intro allI impI)
    fix p assume "p < length ?rs"
    then have p: "p < length ?js" by simp
    then have "?js ! p \<in> set ?js" by simp
    from in_js [OF this] have j: "?js ! p < length docs" "?js ! p \<noteq> idx" by simp_all
    from j(1) assms have "idx < length embs" "?js ! p < length embs" by simp_all
    from entryFor_is_entry [OF this assms(3) j(2)] j(1) p
    show "?js ! p < length docs
      \<and> topSimilar_entry idx embs (docs ! (?js ! p)) (?js ! p) = Inr (Some (?rs ! p))"
      by simp
  qed
  have 5: "int (length ?rs) \<le> min k (int (length docs) - 1)"
    using ranking_length [OF assms(1,4), of embs] by simp
  have "sorted_wrt (\<lambda>a b. ge_number (similarity (entryFor docs embs idx a))
      (similarity (entryFor docs embs idx b))) ?js"
  proof (rule sorted_wrt_mono_rel [OF _ ranking_sorted])
    fix a b assume "a \<in> set ?js" "b \<in> set ?js"
      and "numval (scoreOf embs idx b) \<le> numval (scoreOf embs idx a)"
    moreover from in_js calculation assms have "idx < length embs" "a < length embs" "b < length embs"
      by simp_all
    ultimately show "ge_number (similarity (entryFor docs embs idx a))
        (similarity (entryFor docs embs idx b))"
      using assms(3) by (simp add: similarity_entryFor [where D = D])
  qed
  then have 6: "sorted_wrt (\<lambda>a b. ge_number (similarity a) (similarity b)) ?rs"
    by (simp add: sorted_wrt_map)
  from 1 2 3 4 5 6 ranking_distinct [of embs idx "length docs" k] show ?thesis
    by (intro exI [of _ ?rs] exI [of _ ?js]) simp
qed

text \<open>
  Claim C4. Under the same assumptions, for every \<open>k\<close>: two entries of the result with
  equal rounded similarity stand in the order of their documents in the corpus. The sort
  is stable (as the language requires of \<open>Array.prototype.sort\<close>), and the candidates
  are built in corpus order.
\<close>

theorem topSimilar_ties_in_corpus_order:
  assumes "idx < length docs" "length embs = length docs" "\<forall>v\<in>set embs. length v = D"
  shows "\<exists>rs js. topSimilar idx docs embs k = Inr rs
           \<and> calculateSingleDocSimilarities idx docs embs k = Inr rs
           \<and> length js = length rs
           \<and> (\<forall>p<length rs. js ! p < length docs \<and> js ! p \<noteq> idx
                 \<and> topSimilar_entry idx embs (docs ! (js ! p)) (js ! p) = Inr (Some (rs ! p)))
           \<and> (\<forall>p q. p < q \<and> q < length rs \<and> similarity (rs ! p) = similarity (rs ! q)
                 \<longrightarrow> js ! p < js ! q)"
proof -
  let ?js = "ranking embs idx (length docs) k"
  let ?rs = "map (entryFor docs embs idx) ?js"
  have in_js: "j < length docs \<and> j \<noteq> idx" if "j \<in> set ?js" for j
    using ranking_set [of embs idx "length docs" k] that by auto
  have 1: "topSimilar idx docs embs k = Inr ?rs"
    by (rule topSimilar_ranking [OF assms(1-3)])
  have 2: "calculateSingleDocSimilarities idx docs embs k = Inr ?rs"
    by (rule calculateSingleDocSimilarities_ranking [OF assms(1-3)])
  have 4: "\<forall>p<length ?rs. ?js ! p < length docs \<and> ?js ! p \<noteq> idx
      \<and> topSimilar_entry idx embs (docs ! (?js ! p)) (?js ! p) = Inr (Some (?rs ! p))"
  proof (intro allI impI)
    fix p assume "p < length ?rs"
    then have p: "p < length ?js" by simp
    then have "?js ! p \<in> set ?js" by simp
    from in_js [OF this] have j: "?js ! p < length docs" "?js ! p \<noteq> idx" by simp_all
    from j(1) assms have "idx < length embs" "?js ! p < length embs" by simp_all
    from entryFor_is_entry [OF this assms(3) j(2)] j p
    show "?js ! p < length docs \<and> ?js ! p \<noteq> idx
      \<and> topSimilar_entry idx embs (docs ! (?js ! p)) (?js ! p) = Inr (Some (?rs ! p))"
      by simp
  qed
  have 5: "\<forall>p q. p < q \<and> q < length ?rs \<and> similarity (?rs ! p) = similarity (?rs ! q)
      \<longrightarrow> ?js ! p < ?js ! q"
  proof (intro allI impI, elim conjE)
    fix p q assume pq: "p < q" "q < length ?rs"
      and eq: "similarity (?rs ! p) = similarity (?rs ! q)"
    from pq have q: "q < length ?js" and p: "p < length ?js" by simp_all
    then have "?js ! p \<in> set ?js" "?js ! q \<in> set ?js" by simp_all
    with in_js assms have "idx < length embs" "?js ! p < length embs" "?js ! q < length embs"
      by simp_all
    with eq p q assms(3)
    have "numval (scoreOf embs idx (?js ! p)) = numval (scoreOf embs idx (?js ! q))"
      by (simp add: similarity_entryFor [where D = D])
    with ranking_ties [of embs idx "length docs" k] pq(1) q show "?js ! p < ?js ! q"
      by (simp add: sorted_wrt_iff_nth_less)
  qed
  from 1 2 4 5 show ?thesis
    by (intro exI [of _ ?rs] exI [of _ ?js]) simp
qed

theorem topSimilar_excludes_source_bounded_sorted_witness:
  "\<exists>rs (js :: nat list). topSimilar 0 corpus3 embeddings3 2 = Inr rs
      \<and> calculateSingleDocSimilarities 0 corpus3 embeddings3 2 = Inr rs
      \<and> length js = length rs \<and> distinct js \<and> 0 \<notin> set js
      \<and> int (length rs) \<le> min 2 (int (length corpus3) - 1)
      \<and> sorted_wrt (\<lambda>a b. ge_number (similarity a) (similarity b)) rs"
proof -
  have h1: "0 < length corpus3" by (simp add: corpus3_def)
  have h2: "length embeddings3 = length corpus3" by (simp add: corpus3_def embeddings3_def)
  have h3: "\<forall>v\<in>set embeddings3. length v = 2" by (simp add: embeddings3_def)
  have h4: "(0::int) \<le> 2" by simp
  from topSimilar_excludes_source_bounded_sorted [OF h1 h2 h3 h4]
  obtain rs and js :: "nat list" where "topSimilar 0 corpus3 embeddings3 2 = Inr rs"
    "calculateSingleDocSimilarities 0 corpus3 embeddings3 2 = Inr rs"
    "length js = length rs" "distinct js" "0 \<notin> set js"
    "int (length rs) \<le> min 2 (int (length corpus3) - 1)"
    "sorted_wrt (\<lambda>a b. ge_number (similarity a) (similarity b)) rs"
    by blast
  then show ?thesis
    by blast
qed

section \<open>The end-to-end scenario\<close>

lemmas scenario_defs = topSimilar_def calculateSingleDocSimilarities_def
  similarities_loop_map_from corpus3_def embeddings3_def embeddingsTie_def topSimilar_entry_def
  dot_def read_def nth_opt_def similarityEntry_def docA_def docB_def docC_def js_sort_def
  sortCompare_def bySimilarityDesc_def similarity_def slice0_def neighbour_def

text \<open>The tie of the second corpus, evaluated: B and C both score 0.6 and B comes first.\<close>

lemma tie_scenario:
  "topSimilar 0 corpus3 embeddingsTie 5 =
     Inr [neighbour ''B'' ''b.md'' 0.6, neighbour ''C'' ''c.md'' 0.6]"
  by (simp add: scenario_defs)

theorem topSimilar_ties_in_corpus_order_witness:
  "\<exists>js. length js = 2 \<and> js ! 0 < js ! 1
      \<and> topSimilar_entry 0 embeddingsTie (corpus3 ! (js ! 0)) (js ! 0) =
          Inr (Some (neighbour ''B'' ''b.md'' 0.6))
      \<and> topSimilar_entry 0 embeddingsTie (corpus3 ! (js ! 1)) (js ! 1) =
          Inr (Some (neighbour ''C'' ''c.md'' 0.6))"
proof -
  have h1: "0 < length corpus3" by (simp add: corpus3_def)
  have h2: "length embeddingsTie = length corpus3" by (simp add: corpus3_def embeddingsTie_def)
  have h3: "\<forall>v\<in>set embeddingsTie. length v = 2" by (simp add: embeddingsTie_def)
  from topSimilar_ties_in_corpus_order [OF h1 h2 h3, of 5]
  obtain rs js where rs: "topSimilar 0 corpus3 embeddingsTie 5 = Inr rs"
    and len: "length js = length rs"
    and ent: "\<forall>p<length rs. js ! p < length corpus3 \<and> js ! p \<noteq> 0
        \<and> topSimilar_entry 0 embeddingsTie (corpus3 ! (js ! p)) (js ! p) = Inr (Some (rs ! p))"
    and tie: "\<forall>p q. p < q \<and> q < length rs \<and> similarity (rs ! p) = similarity (rs ! q)
        \<longrightarrow> js ! p < js ! q"
    by blast
  from rs have rs_eq: "rs = [neighbour ''B'' ''b.md'' 0.6, neighbour ''C'' ''c.md'' 0.6]"
    by (simp add: tie_scenario)
  have "similarity (rs ! 0) = similarity (rs ! 1)"
    by (simp add: rs_eq neighbour_def similarity_def)
  with tie have "js ! 0 < js ! 1" by (simp add: rs_eq)
  moreover from ent have "topSimilar_entry 0 embeddingsTie (corpus3 ! (js ! 0)) (js ! 0) = Inr (Some (rs ! 0))"
    by (simp add: rs_eq)
  moreover from ent have "topSimilar_entry 0 embeddingsTie (corpus3 ! (js ! 1)) (js ! 1) = Inr (Some (rs ! 1))"
    by (simp add: rs_eq)
  ultimately show ?thesis using len
    by (intro exI [of _ js]) (simp add: rs_eq)
qed

text \<open>
  Claim C5, as stated, puts A (-1.00) before B (-0.80) in the list of C. That list is not
  in descending order, and the code does not return it.
\<close>

theorem scenario_as_stated_counterexample:
  "\<not> (topSimilar 0 corpus3 embeddings3 2 =
          Inr [neighbour ''B'' ''b.md'' 0.8, neighbour ''C'' ''c.md'' (-1)]
      \<and> topSimilar 1 corpus3 embeddings3 2 =
          Inr [neighbour ''A'' ''a.md'' 0.8, neighbour ''C'' ''c.md'' (-0.8)]
      \<and> topSimilar 2 corpus3 embeddings3 2 =
          Inr [neighbour ''A'' ''a.md'' (-1), neighbour ''B'' ''b.md'' (-0.8)])"
  by (simp add: scenario_defs)

text \<open>
  Claim C5, amended: the lists of A and B are as stated; the list of C is
  B (-0.80), then A (-1.00). Both variants return these lists.
\<close>

theorem scenario_amended:
  "topSimilar 0 corpus3 embeddings3 2 =
     Inr [neighbour ''B'' ''b.md'' 0.8, neighbour ''C'' ''c.md'' (-1)]
   \<and> topSimilar 1 corpus3 embeddings3 2 =
     Inr [neighbour ''A'' ''a.md'' 0.8, neighbour ''C'' ''c.md'' (-0.8)]
   \<and> topSimilar 2 corpus3 embeddings3 2 =
     Inr [neighbour ''B'' ''b.md'' (-0.8), neighbour ''A'' ''a.md'' (-1)]
   \<and> calculateSingleDocSimilarities 0 corpus3 embeddings3 2 =
     Inr [neighbour ''B'' ''b.md'' 0.8, neighbour ''C'' ''c.md'' (-1)]
   \<and> calculateSingleDocSimilarities 1 corpus3 embeddings3 2 =
     Inr [neighbour ''A'' ''a.md'' 0.8, neighbour ''C'' ''c.md'' (-0.8)]
   \<and> calculateSingleDocSimilarities 2 corpus3 embeddings3 2 =
     Inr [neighbour ''B'' ''b.md'' (-0.8), neighbour ''A'' ''a.md'' (-1)]"
  by (simp add: scenario_defs)

text \<open>
  Stored in a \<open>Float32Array\<close>, 0.8 and 0.6 become the nearest single-precision values.
  On these the scenario involves no rounding at all (every product is by 1, 0 or -1 and
  every sum adds 0), and the rounded similarities are the same.
\<close>

lemma scenario_float32:
  "topSimilar 0 corpus3 embeddings3_float32 2 =
     Inr [neighbour ''B'' ''b.md'' 0.8, neighbour ''C'' ''c.md'' (-1)]"
  "topSimilar 1 corpus3 embeddings3_float32 2 =
     Inr [neighbour ''A'' ''a.md'' 0.8, neighbour ''C'' ''c.md'' (-0.8)]"
  "topSimilar 2 corpus3 embeddings3_float32 2 =
     Inr [neighbour ''B'' ''b.md'' (-0.8), neighbour ''A'' ''a.md'' (-1)]"
  by (simp_all add: embeddings3_float32_def scenario_defs)

section \<open>Malformed embedding output\<close>

lemma cleanText_examples:
  "cleanText ''alpha'' = ''alpha''" "cleanText ''beta'' = ''beta''"
  "cleanText ''gamma'' = ''gamma''" "cleanText ''numbered'' = ''numbered''"
  by code_simp+

lemmas world_defs = worldGood_def worldFlat_def worldShort_def worldNumeric_def exampleWorld_def
  exampleMatter_def processDocumentFile_def processFile_def getPlainText_def cleanText_examples

lemma load_examples:
  "loadAllDocuments worldGood [''a.md'', ''b.md'', ''c.md''] = corpus3"
  "loadAllDocuments worldFlat [''a.md'', ''b.md'', ''c.md''] = corpus3"
  "loadAllDocuments worldShort [''a.md'', ''b.md'', ''c.md''] = corpus3"
  by (simp_all add: world_defs corpus3_def docA_def docB_def docC_def)

lemma world_fields [simp]:
  "initExtractor (exampleWorld files out) = None"
  "globFiles (exampleWorld files out) = Inr files"
  "extractor (exampleWorld files out) texts = Inr out"
  "writeResults (exampleWorld files out) = None"
  "toString (exampleWorld files out) = exampleToString"
  by (simp_all add: exampleWorld_def)

lemma generateDocumentEmbeddings_malformed:
  assumes "docs \<noteq> []" "extr (map content docs) = Inr out" "malformed out (length docs)"
  shows "generateDocumentEmbeddings docs extr = Inr []"
  using assms
  by (auto simp: generateDocumentEmbeddings_def malformed_def Let_def split: option.splits)

lemma run_malformed:
  assumes "initExtractor w = None" "globFiles w = Inr filePaths"
    and "loadAllDocuments w filePaths = docs" "docs \<noteq> []"
    and "extractor w (map content docs) = Inr out" "malformed out (length docs)"
  shows "runSimilarityAnalysis w = \<lparr>saved = None, exitCode = 0\<rparr>"
proof -
  have g: "generateDocumentEmbeddings docs (extractor w) = Inr []"
    using assms(4,5,6) by (rule generateDocumentEmbeddings_malformed)
  from assms(3,4) have "filePaths \<noteq> []" by auto
  with assms g show ?thesis
    by (simp add: runSimilarityAnalysis_def stopped_def)
qed

text \<open>
  Claim C3, amended. When the model's output is malformed for the documents at hand (no
  \<open>dims\<close>, fewer than two dimensions, or a first dimension that is not the number of
  documents), \<open>generateDocumentEmbeddings\<close> raises nothing and returns the empty array;
  \<open>runSimilarityAnalysis\<close> then returns before any similarity is computed: nothing is
  written, and the exit code stays 0.
\<close>

theorem malformed_output_stops_run:
  assumes "initExtractor w = None" "globFiles w = Inr filePaths"
    and "loadAllDocuments w filePaths = docs" "docs \<noteq> []"
    and "extractor w (map content docs) = Inr out" "malformed out (length docs)"
  shows "generateDocumentEmbeddings docs (extractor w) = Inr []
         \<and> runSimilarityAnalysis w = \<lparr>saved = None, exitCode = 0\<rparr>"
  using generateDocumentEmbeddings_malformed [of docs "extractor w" out] run_malformed [of w filePaths docs out]
    assms by simp

theorem malformed_output_stops_run_witness:
  "generateDocumentEmbeddings corpus3 (extractor worldFlat) = Inr []
   \<and> runSimilarityAnalysis worldFlat = \<lparr>saved = None, exitCode = 0\<rparr>"
proof -
  have 1: "initExtractor worldFlat = None" by (simp add: worldFlat_def)
  have 2: "globFiles worldFlat = Inr [''a.md'', ''b.md'', ''c.md'']" by (simp add: worldFlat_def)
  have 3: "loadAllDocuments worldFlat [''a.md'', ''b.md'', ''c.md''] = corpus3"
    by (rule load_examples)
  have 4: "corpus3 \<noteq> []" by (simp add: corpus3_def)
  have 5: "extractor worldFlat (map content corpus3) = Inr flatOutput" by (simp add: worldFlat_def)
  have 6: "malformed flatOutput (length corpus3)"
    by (simp add: malformed_def flatOutput_def)
  from malformed_output_stops_run [OF 1 2 3 4 5 6] show ?thesis .
qed

lemma world_facts:
  "initExtractor worldFlat = None" "globFiles worldFlat = Inr [''a.md'', ''b.md'', ''c.md'']"
  "extractor worldFlat (map content corpus3) = Inr flatOutput"
  "initExtractor worldShort = None" "globFiles worldShort = Inr [''a.md'', ''b.md'', ''c.md'']"
  "extractor worldShort (map content corpus3) = Inr shortOutput"
  "corpus3 \<noteq> []" "malformed flatOutput (length corpus3)" "malformed shortOutput (length corpus3)"
  by (simp_all add: worldFlat_def worldShort_def corpus3_def malformed_def flatOutput_def
      shortOutput_def)

text \<open>
  Claim C3, as stated, has the embedding step fail with an error that reaches the caller.
  With a one-dimensional output, and with an output for two documents instead of three,
  \<open>generateDocumentEmbeddings\<close> returns normally and the run ends with exit code 0.
\<close>

theorem malformed_output_not_raised_counterexample:
  "generateDocumentEmbeddings corpus3 (extractor worldFlat) = Inr []
   \<and> generateDocumentEmbeddings corpus3 (extractor worldShort) = Inr []
   \<and> exitCode (runSimilarityAnalysis worldFlat) = 0
   \<and> exitCode (runSimilarityAnalysis worldShort) = 0"
proof -
  have g1: "generateDocumentEmbeddings corpus3 (extractor worldFlat) = Inr []"
    by (rule generateDocumentEmbeddings_malformed) (rule world_facts)+
  have g2: "generateDocumentEmbeddings corpus3 (extractor worldShort) = Inr []"
    by (rule generateDocumentEmbeddings_malformed) (rule world_facts)+
  have r1: "runSimilarityAnalysis worldFlat = \<lparr>saved = None, exitCode = 0\<rparr>"
    by (rule run_malformed) (rule world_facts load_examples)+
  have r2: "runSimilarityAnalysis worldShort = \<lparr>saved = None, exitCode = 0\<rparr>"
    by (rule run_malformed) (rule world_facts load_examples)+
  from g1 g2 r1 r2 show ?thesis by simp
qed

text \<open>
  The second variant checks nothing: from the one-dimensional output \<open>embedDocs\<close>
  makes six empty vectors for the three documents.
\<close>

lemma embedDocs_flat:
  "embedDocs corpus3 (extractor worldFlat) = Inr [[], [], [], [], [], []]"
  by (simp add: embedDocs_def corpus3_def worldFlat_def exampleWorld_def flatOutput_def
      nth_opt_def normalize_def hypot_def upt_rec)

section \<open>Which documents are loaded\<close>

lemma processFile_numeric:
  "processFile worldNumeric ''n.md'' =
     Some \<lparr>path = ''n.md'', content = ''numbered'', frontmatter = [(''slug'', JNum (Num 42))]\<rparr>"
  "processDocumentFile worldNumeric ''n.md'' = None"
  "map content (loadDocs worldNumeric [''a.md'', ''n.md'']) = [''alpha'', ''numbered'']"
  "map content (loadAllDocuments worldNumeric [''a.md'', ''n.md'']) = [''alpha'']"
  by (simp_all add: world_defs)

lemma processDocumentFile_valid:
  assumes "processDocumentFile w p = Some d"
  shows "validSlug (map_of (frontmatter d) ''slug'')
         \<and> map_of (frontmatter d) ''draft'' \<noteq> Some (JBool True) \<and> path d = p"
  using assms
  by (auto simp: processDocumentFile_def split: sum.splits if_splits prod.splits)

lemma set_loadAllDocuments:
  "set (loadAllDocuments w ps) = {d. \<exists>p\<in>set ps. processDocumentFile w p = Some d}"
  by (induction ps) (auto split: option.splits)

section \<open>The corpus result\<close>

lemma update_fresh: "k \<notin> fst ` set al \<Longrightarrow> AList.update k v al = al @ [(k, v)]"
  by (induction al) auto

lemma map_of_foldl_update:
  "map_of (foldl (\<lambda>obj (k, v). AList.update k v obj) acc es) = map_of acc ++ map_of (rev es)"
proof (induction es arbitrary: acc)
  case Nil
  then show ?case by simp
next
  case (Cons e es)
  obtain k v where e: "e = (k, v)" by (cases e)
  have "map_of (foldl (\<lambda>obj (k, v). AList.update k v obj) acc (e # es)) =
      map_of (AList.update k v acc) ++ map_of (rev es)"
    using Cons.IH [of "AList.update k v acc"] by (simp add: e)
  also have "\<dots> = (map_of acc)(k \<mapsto> v) ++ map_of (rev es)"
    by (simp add: update_conv')
  also have "\<dots> = map_of acc ++ ([k \<mapsto> v] ++ map_of (rev es))"
    by (metis map_add_assoc map_add_empty map_add_upd)
  also have "\<dots> = map_of acc ++ map_of (rev (e # es))"
    by (simp add: e)
  finally show ?case .
qed

lemma distinct_foldl_update:
  "distinct (map fst acc) \<Longrightarrow>
   distinct (map fst (foldl (\<lambda>obj (k, v). AList.update k v obj) acc es))"
  by (induction es arbitrary: acc) (auto simp: distinct_update)

lemma keys_foldl_update:
  "fst ` set (foldl (\<lambda>obj (k, v). AList.update k v obj) acc es) = fst ` set acc \<union> fst ` set es"
proof (induction es arbitrary: acc)
  case Nil
  then show ?case by simp
next
  case (Cons e es)
  obtain k v where e: "e = (k, v)" by (cases e)
  have "fst ` set (AList.update k v acc) = insert k (fst ` set acc)"
    using dom_update [of k v acc] by simp
  with Cons.IH [of "AList.update k v acc"] show ?case by (auto simp: e)
qed

lemma foldl_update_fresh:
  "distinct (map fst (acc @ es)) \<Longrightarrow>
   foldl (\<lambda>obj (k, v). AList.update k v obj) acc es = acc @ es"
proof (induction es arbitrary: acc)
  case Nil
  then show ?case by simp
next
  case (Cons e es)
  obtain k v where e: "e = (k, v)" by (cases e)
  from Cons.prems have fresh: "k \<notin> fst ` set acc" by (auto simp: e)
  from Cons.prems have "distinct (map fst ((acc @ [e]) @ es))" by simp
  from Cons.IH [OF this] fresh show ?case by (simp add: e update_fresh)
qed

lemma foldl_assign_update:
  "''__proto__'' \<notin> fst ` set es \<Longrightarrow>
   foldl (\<lambda>obj (k, v). assign k v obj) acc es = foldl (\<lambda>obj (k, v). AList.update k v obj) acc es"
  by (induction es arbitrary: acc) (auto simp: assign_def)

lemma forEach_from_total:
  "(\<And>i st. i < length xs \<Longrightarrow> f (xs ! i) (j + i) st = Inr (g (xs ! i) (j + i) st)) \<Longrightarrow>
   forEach_from f xs j st = Inr (foldl (\<lambda>st i. g (xs ! i) (j + i) st) st [0..<length xs])"
proof (induction xs arbitrary: j st)
  case Nil
  then show ?case by simp
next
  case (Cons x xs)
  have hd: "f x j st = Inr (g x j st)" using Cons.prems [of 0] by simp
  have "\<And>i st. i < length xs \<Longrightarrow> f (xs ! i) (Suc j + i) st = Inr (g (xs ! i) (Suc j + i) st)"
    using Cons.prems [of "Suc _"] by simp
  from Cons.IH [OF this, of "g x j st"]
  have tl: "forEach_from f xs (Suc j) (g x j st) =
      Inr (foldl (\<lambda>st i. g (xs ! i) (Suc j + i) st) (g x j st) [0..<length xs])" .
  have u: "[0..<length (x # xs)] = 0 # map Suc [0..<length xs]"
    by (simp add: upt_conv_Cons map_Suc_upt del: upt_Suc)
  show ?case unfolding u using hd tl by (simp add: foldl_map)
qed

lemma topSimilar_neighboursOf:
  assumes "i < length docs" "length embs = length docs"
  shows "topSimilar i docs embs k = Inr (neighboursOf docs embs k i)"
    and "calculateSingleDocSimilarities i docs embs k = Inr (neighboursOf docs embs k i)"
proof -
  from topSimilar_total [OF assms] obtain rs where "topSimilar i docs embs k = Inr rs" ..
  then show "topSimilar i docs embs k = Inr (neighboursOf docs embs k i)"
    by (simp add: neighboursOf_def)
  then show "calculateSingleDocSimilarities i docs embs k = Inr (neighboursOf docs embs k i)"
    by (simp add: variants_equal)
qed

lemma allSimilarities_entries:
  assumes "length embs = length docs"
  shows "allSimilarities ts docs embs k = Inr (fromEntries (slugEntries ts docs embs k))"
proof -
  have "map_from (\<lambda>d i. case topSimilar i docs embs k of Inl e \<Rightarrow> Inl e
                          | Inr r \<Rightarrow> Inr (slugKey ts d, r)) docs 0 =
      Inr (map (\<lambda>i. (\<lambda>d i. (slugKey ts d, neighboursOf docs embs k i)) (docs ! i) (0 + i))
             [0..<length docs])"
    by (rule map_from_total)
      (simp add: topSimilar_neighboursOf [OF _ assms])
  then show ?thesis by (simp add: allSimilarities_def slugEntries_def)
qed

lemma computeAllSimilarities_entries:
  assumes "length embs = length docs"
  shows "computeAllSimilarities ts docs embs k =
           Inr (foldl (\<lambda>obj (key, v). assign key v obj) [] (slugEntries ts docs embs k))"
proof -
  have "forEach_from
      (\<lambda>doc i resultsBySlug. case calculateSingleDocSimilarities i docs embs k of
           Inl e \<Rightarrow> Inl e
         | Inr topSimilarDocs \<Rightarrow> Inr (assign (slugKey ts doc) topSimilarDocs resultsBySlug))
      docs 0 [] =
      Inr (foldl (\<lambda>st i. (\<lambda>d i st. assign (slugKey ts d) (neighboursOf docs embs k i) st)
                   (docs ! i) (0 + i) st) [] [0..<length docs])"
    by (rule forEach_from_total)
      (simp add: topSimilar_neighboursOf [OF _ assms])
  then show ?thesis
    by (simp add: computeAllSimilarities_def slugEntries_def foldl_map)
qed

lemma map_of_rev_last:
  assumes "i < n" "\<And>j. i < j \<Longrightarrow> j < n \<Longrightarrow> f j \<noteq> f i"
  shows "map_of (rev (map (\<lambda>i. (f i, g i)) [0..<n])) (f i) = Some (g i)"
  using assms
proof (induction n)
  case 0
  then show ?case by simp
next
  case (Suc n)
  show ?case
  proof (cases "i = n")
    case True
    then show ?thesis by simp
  next
    case False
    with Suc.prems have "i < n" by simp
    moreover have "f n \<noteq> f i" using Suc.prems(2) [of n] \<open>i < n\<close> by simp
    moreover have "map_of (rev (map (\<lambda>i. (f i, g i)) [0..<n])) (f i) = Some (g i)"
      using Suc.IH [OF \<open>i < n\<close>] Suc.prems(2) by simp
    ultimately show ?thesis by auto
  qed
qed

lemma slugEntries_keys: "map fst (slugEntries ts docs embs k) = map (slugKey ts) docs"
proof -
  have "map (\<lambda>i. slugKey ts (docs ! i)) [0..<length docs] = map (slugKey ts) (map ((!) docs) [0..<length docs])"
    by (simp add: comp_def)
  then show ?thesis by (simp add: slugEntries_def comp_def map_nth)
qed

text \<open>
  Claim C2, amended. With one embedding per document, \<open>allSimilarities\<close> succeeds
  whether or not slugs repeat. Its result has one key per distinct slug; a slug is bound
  to the neighbours of the last document that carries it; and when all slugs are distinct
  there is one key per document. Provided no document has the slug \<open>__proto__\<close>,
  \<open>computeAllSimilarities\<close> returns the same object, so all of this holds of it too.
  (With the slug \<open>__proto__\<close> the assignment \<open>resultsBySlug[slug] = ...\<close> creates no
  property, and \<open>computeAllSimilarities\<close> returns one key fewer: lemma
  \<open>proto_results\<close> below.)
\<close>

theorem corpus_result_last_slug_wins:
  assumes "length embs = length docs"
  shows "\<exists>m. allSimilarities ts docs embs k = Inr m
          \<and> (''__proto__'' \<notin> slugKey ts ` set docs \<longrightarrow>
                computeAllSimilarities ts docs embs k = Inr m)
          \<and> distinct (map fst m) \<and> set (map fst m) = slugKey ts ` set docs
          \<and> (\<forall>i<length docs.
                (\<forall>j<length docs. i < j \<longrightarrow> slugKey ts (docs ! j) \<noteq> slugKey ts (docs ! i)) \<longrightarrow>
                (\<exists>r. topSimilar i docs embs k = Inr r
                   \<and> map_of m (slugKey ts (docs ! i)) = Some r))
          \<and> (distinct (map (slugKey ts) docs) \<longrightarrow> length m = length docs)"
proof -
  let ?es = "slugEntries ts docs embs k"
  let ?m = "fromEntries ?es"
  have keys: "map fst ?es = map (slugKey ts) docs" by (rule slugEntries_keys)
  have 1: "allSimilarities ts docs embs k = Inr ?m"
    by (rule allSimilarities_entries [OF assms])
  have 2: "computeAllSimilarities ts docs embs k = Inr ?m"
    if "''__proto__'' \<notin> slugKey ts ` set docs"
  proof -
    from that keys have "''__proto__'' \<notin> fst ` set ?es"
      by (metis list.set_map)
    then show ?thesis
      by (simp add: computeAllSimilarities_entries [OF assms] foldl_assign_update fromEntries_def)
  qed
  have 3: "distinct (map fst ?m)"
    unfolding fromEntries_def by (rule distinct_foldl_update) simp
  have "fst ` set ?m = fst ` set ?es"
    unfolding fromEntries_def by (simp add: keys_foldl_update)
  also have "\<dots> = slugKey ts ` set docs"
    using keys by (metis list.set_map)
  finally have 4: "set (map fst ?m) = slugKey ts ` set docs" by simp
  have 5: "\<exists>r. topSimilar i docs embs k = Inr r \<and> map_of ?m (slugKey ts (docs ! i)) = Some r"
    if i: "i < length docs"
      and last: "\<forall>j<length docs. i < j \<longrightarrow> slugKey ts (docs ! j) \<noteq> slugKey ts (docs ! i)"
    for i
  proof -
    have "map_of (rev ?es) (slugKey ts (docs ! i)) = Some (neighboursOf docs embs k i)"
      unfolding slugEntries_def
      by (rule map_of_rev_last [where f = "\<lambda>i. slugKey ts (docs ! i)"]) (use i last in auto)
    then have "map_of ?m (slugKey ts (docs ! i)) = Some (neighboursOf docs embs k i)"
      by (simp add: fromEntries_def map_of_foldl_update)
    moreover have "topSimilar i docs embs k = Inr (neighboursOf docs embs k i)"
      by (rule topSimilar_neighboursOf [OF i assms])
    ultimately show ?thesis by blast
  qed
  have 6: "length ?m = length docs" if "distinct (map (slugKey ts) docs)"
  proof -
    from that keys have "distinct (map fst ([] @ ?es))" by simp
    from foldl_update_fresh [OF this] have "?m = ?es" by (simp add: fromEntries_def)
    then show ?thesis by (simp add: slugEntries_def)
  qed
  from 1 2 3 4 5 6 show ?thesis by blast
qed

lemma dup_results:
  "allSimilarities exampleToString corpusDup embeddingsDup 5 =
     Inr [(''A'', [neighbour ''A'' ''a.md'' 0])]"
  "computeAllSimilarities exampleToString corpusDup embeddingsDup 5 =
     Inr [(''A'', [neighbour ''A'' ''a.md'' 0])]"
  "topSimilar 1 corpusDup embeddingsDup 5 = Inr [neighbour ''A'' ''a.md'' 0]"
  by (simp_all add: allSimilarities_def computeAllSimilarities_def fromEntries_def assign_def
      slugKey_def corpusDup_def embeddingsDup_def docA2_def scenario_defs)

text \<open>
  Claim C2, as stated, has the operation fail when a slug repeats. For two documents with
  the slug A both variants return an object with the single key A, bound to the
  neighbours of the second document.
\<close>

theorem duplicate_slug_overwrites_counterexample:
  "slugKey exampleToString (corpusDup ! 0) = slugKey exampleToString (corpusDup ! 1)
   \<and> allSimilarities exampleToString corpusDup embeddingsDup 5 =
       Inr [(''A'', [neighbour ''A'' ''a.md'' 0])]
   \<and> computeAllSimilarities exampleToString corpusDup embeddingsDup 5 =
       Inr [(''A'', [neighbour ''A'' ''a.md'' 0])]"
  by (simp add: dup_results) (simp add: slugKey_def corpusDup_def docA_def docA2_def)

theorem corpus_result_last_slug_wins_witness:
  "\<exists>m. allSimilarities exampleToString corpusDup embeddingsDup 5 = Inr m
      \<and> computeAllSimilarities exampleToString corpusDup embeddingsDup 5 = Inr m
      \<and> distinct (map fst m) \<and> set (map fst m) = {''A''}
      \<and> map_of m ''A'' = Some [neighbour ''A'' ''a.md'' 0]"
proof -
  have h1: "length embeddingsDup = length corpusDup"
    by (simp add: embeddingsDup_def corpusDup_def)
  have keys: "slugKey exampleToString ` set corpusDup = {''A''}"
    by (simp add: slugKey_def corpusDup_def docA_def docA2_def)
  have key1: "slugKey exampleToString (corpusDup ! 1) = ''A''"
    by (simp add: slugKey_def corpusDup_def docA2_def)
  have len: "length corpusDup = 2" by (simp add: corpusDup_def)
  from corpus_result_last_slug_wins [OF h1, of exampleToString 5]
  obtain m where m: "allSimilarities exampleToString corpusDup embeddingsDup 5 = Inr m"
    and c: "''__proto__'' \<notin> slugKey exampleToString ` set corpusDup \<longrightarrow>
        computeAllSimilarities exampleToString corpusDup embeddingsDup 5 = Inr m"
    and d: "distinct (map fst m)" and s: "set (map fst m) = slugKey exampleToString ` set corpusDup"
    and l: "\<forall>i<length corpusDup.
        (\<forall>j<length corpusDup. i < j \<longrightarrow>
            slugKey exampleToString (corpusDup ! j) \<noteq> slugKey exampleToString (corpusDup ! i)) \<longrightarrow>
        (\<exists>r. topSimilar i corpusDup embeddingsDup 5 = Inr r
           \<and> map_of m (slugKey exampleToString (corpusDup ! i)) = Some r)"
    by blast
  from c keys have c': "computeAllSimilarities exampleToString corpusDup embeddingsDup 5 = Inr m"
    by simp
  have "\<forall>j<length corpusDup. 1 < j \<longrightarrow>
      slugKey exampleToString (corpusDup ! j) \<noteq> slugKey exampleToString (corpusDup ! 1)"
    by (simp add: len)
  with l len obtain r where "topSimilar 1 corpusDup embeddingsDup 5 = Inr r"
    "map_of m (slugKey exampleToString (corpusDup ! 1)) = Some r"
    by (metis one_less_numeral_iff semiring_norm(76))
  then have "map_of m ''A'' = Some [neighbour ''A'' ''a.md'' 0]"
    unfolding key1 dup_results by simp
  with m c' d s keys show ?thesis by simp
qed

text \<open>
  Why \<open>__proto__\<close> is set apart: in a corpus with the distinct slugs A and \<open>__proto__\<close>
  the first variant returns the single key A, the second both keys.
\<close>

lemma proto_results:
  "distinct (map (slugKey exampleToString) corpusProto)"
  "computeAllSimilarities exampleToString corpusProto embeddingsDup 5 =
     Inr [(''A'', [neighbour ''__proto__'' ''p.md'' 0])]"
  "allSimilarities exampleToString corpusProto embeddingsDup 5 =
     Inr [(''A'', [neighbour ''__proto__'' ''p.md'' 0]),
          (''__proto__'', [neighbour ''A'' ''a.md'' 0])]"
  by (simp_all add: allSimilarities_def computeAllSimilarities_def fromEntries_def assign_def
      slugKey_def corpusProto_def embeddingsDup_def docP_def scenario_defs)

section \<open>A slug that is not a string\<close>

lemma normalize_examples:
  "normalize [1, 0] = [1, 0]" "normalize [0, 1] = [0, 1]"
  by (simp_all add: normalize_def hypot_def)

lemma loadDocs_numeric:
  "loadDocs worldNumeric [''a.md'', ''n.md''] =
     [docA, \<lparr>path = ''n.md'', content = ''numbered'', frontmatter = [(''slug'', JNum (Num 42))]\<rparr>]"
  by (simp add: world_defs docA_def)

lemma embedDocs_numeric:
  "embedDocs (loadDocs worldNumeric [''a.md'', ''n.md'']) (extractor worldNumeric) =
     Inr [[1, 0], [0, 1]]"
  unfolding loadDocs_numeric
  by (simp add: embedDocs_def worldNumeric_def nth_opt_def slice_def normalize_examples upt_rec)

lemma main_numeric:
  "main worldNumeric =
     \<lparr>saved = Some [(''A'', [[(''slug'', JNum (Num 42)), (''path'', JStr ''n.md''),
                               (''similarity'', JNum (Num 0))]]),
                      (''42'', [neighbour ''A'' ''a.md'' 0])],
      exitCode = 0\<rparr>"
proof -
  have g: "globFiles worldNumeric = Inr [''a.md'', ''n.md'']" "initExtractor worldNumeric = None"
    "toString worldNumeric = exampleToString" "writeResults worldNumeric = None"
    by (simp_all add: worldNumeric_def)
  have a: "allSimilarities exampleToString
      [docA, \<lparr>path = ''n.md'', content = ''numbered'', frontmatter = [(''slug'', JNum (Num 42))]\<rparr>]
      [[1, 0], [0, 1]] TOP_N =
      Inr [(''A'', [[(''slug'', JNum (Num 42)), (''path'', JStr ''n.md''),
                               (''similarity'', JNum (Num 0))]]),
                      (''42'', [neighbour ''A'' ''a.md'' 0])]"
    by (simp add: allSimilarities_def fromEntries_def slugKey_def TOP_N_def scenario_defs)
  have e: "embedDocs
      [docA, \<lparr>path = ''n.md'', content = ''numbered'', frontmatter = [(''slug'', JNum (Num 42))]\<rparr>]
      (extractor worldNumeric) = Inr [[1, 0], [0, 1]]"
    using embedDocs_numeric unfolding loadDocs_numeric .
  show ?thesis
    unfolding main_def g
    by (simp add: e a loadDocs_numeric saveJson_def g del: loadDocs.simps)
qed

text \<open>
  Claim C6 holds of the first variant: a document that \<open>processDocumentFile\<close> returns
  has a non-empty string as its slug and is not marked as a draft, and
  \<open>loadAllDocuments\<close> returns exactly those documents. The second variant tests the
  slug for truthiness only. A file whose slug is the number 42 is skipped by
  \<open>processDocumentFile\<close> and kept by \<open>processFile\<close>: its text goes into the
  embedding batch, \<open>42\<close> becomes a key of the results, and the document is listed as a
  neighbour of A.
\<close>

theorem processFile_keeps_numeric_slug:
  "processDocumentFile worldNumeric ''n.md'' = None
   \<and> processFile worldNumeric ''n.md'' =
       Some \<lparr>path = ''n.md'', content = ''numbered'', frontmatter = [(''slug'', JNum (Num 42))]\<rparr>
   \<and> map content (loadDocs worldNumeric [''a.md'', ''n.md'']) = [''alpha'', ''numbered'']
   \<and> main worldNumeric =
       \<lparr>saved = Some [(''A'', [[(''slug'', JNum (Num 42)), (''path'', JStr ''n.md''),
                                  (''similarity'', JNum (Num 0))]]),
                        (''42'', [neighbour ''A'' ''a.md'' 0])],
        exitCode = 0\<rparr>"
  using processFile_numeric main_numeric by simp

theorem processFile_keeps_numeric_slug_witness:
  "\<exists>d. processFile worldNumeric ''n.md'' = Some d
      \<and> map_of (frontmatter d) ''slug'' = Some (JNum (Num 42))
      \<and> content d \<in> set (map content (loadDocs worldNumeric [''a.md'', ''n.md'']))"
  using processFile_keeps_numeric_slug by simp

section \<open>Example runs\<close>

text \<open>A draft and a file without a slug are skipped by both variants.\<close>

lemma skipped_examples:
  "processDocumentFile (exampleWorld files out) ''d.md'' = None"
  "processDocumentFile (exampleWorld files out) ''e.md'' = None"
  "processFile (exampleWorld files out) ''d.md'' = None"
  "processFile (exampleWorld files out) ''e.md'' = None"
  by (simp_all add: exampleWorld_def exampleMatter_def processDocumentFile_def processFile_def)

text \<open>A run of the first variant on the scenario writes the three neighbour lists.\<close>

lemma generate_good:
  "generateDocumentEmbeddings corpus3 (extractor worldGood) = Inr embeddings3"
  by (simp add: generateDocumentEmbeddings_def worldGood_def goodOutput_def corpus3_def
      embeddings3_def slice_def upt_rec)

lemma compute_good:
  "computeAllSimilarities exampleToString corpus3 embeddings3 TOP_N_RESULTS =
     Inr [(''A'', [neighbour ''B'' ''b.md'' 0.8, neighbour ''C'' ''c.md'' (-1)]),
          (''B'', [neighbour ''A'' ''a.md'' 0.8, neighbour ''C'' ''c.md'' (-0.8)]),
          (''C'', [neighbour ''B'' ''b.md'' (-0.8), neighbour ''A'' ''a.md'' (-1)])]"
  by (simp add: computeAllSimilarities_def assign_def slugKey_def TOP_N_RESULTS_def scenario_defs)

lemma run_good:
  "runSimilarityAnalysis worldGood =
     \<lparr>saved = Some [(''A'', [neighbour ''B'' ''b.md'' 0.8, neighbour ''C'' ''c.md'' (-1)]),
                      (''B'', [neighbour ''A'' ''a.md'' 0.8, neighbour ''C'' ''c.md'' (-0.8)]),
                      (''C'', [neighbour ''B'' ''b.md'' (-0.8), neighbour ''A'' ''a.md'' (-1)])],
      exitCode = 0\<rparr>"
proof -
  have g: "globFiles worldGood = Inr [''a.md'', ''b.md'', ''c.md'']" "initExtractor worldGood = None"
    "toString worldGood = exampleToString" "writeResults worldGood = None"
    by (simp_all add: worldGood_def)
  have n: "corpus3 \<noteq> []" "embeddings3 \<noteq> []" by (simp_all add: corpus3_def embeddings3_def)
  show ?thesis
    unfolding runSimilarityAnalysis_def g
    using n by (simp add: load_examples generate_good compute_good saveResultsToFile_def g
        del: loadAllDocuments.simps)
qed

text \<open>
  The second variant on malformed outputs. With two vectors for three documents the
  missing embedding raises \<open>TypeError\<close> in \<open>dot\<close> and the run fails; with a
  one-dimensional output all vectors are empty, every similarity is 0, and the results
  are written.
\<close>

lemma loadDocs_examples:
  "loadDocs worldFlat [''a.md'', ''b.md'', ''c.md''] = corpus3"
  "loadDocs worldShort [''a.md'', ''b.md'', ''c.md''] = corpus3"
  by (simp_all add: world_defs corpus3_def docA_def docB_def docC_def)

lemma embedDocs_short:
  "embedDocs corpus3 (extractor worldShort) = Inr [[1, 0], [4 / 5, 3 / 5]]"
proof -
  have "(\<Sum>x\<leftarrow>[4 / 5, 3 / 5 :: real]. x\<^sup>2) = 1" by (simp add: power2_eq_square)
  then have "normalize [4 / 5, 3 / 5] = [4 / 5, 3 / 5]" by (simp add: normalize_def hypot_def)
  moreover have "normalize [1, 0] = [1, 0]" by (simp add: normalize_def hypot_def)
  ultimately show ?thesis
    by (simp add: embedDocs_def corpus3_def worldShort_def shortOutput_def nth_opt_def slice_def
        upt_rec)
qed

lemma main_short: "main worldShort = \<lparr>saved = None, exitCode = 1\<rparr>"
proof -
  have g: "globFiles worldShort = Inr [''a.md'', ''b.md'', ''c.md'']" "initExtractor worldShort = None"
    "toString worldShort = exampleToString"
    by (simp_all add: worldShort_def)
  have a: "allSimilarities exampleToString corpus3 [[1, 0], [4 / 5, 3 / 5]] TOP_N = Inl TypeError"
    by (simp add: allSimilarities_def topSimilar_def topSimilar_entry_def dot_def nth_opt_def
        corpus3_def read_def)
  have n: "corpus3 \<noteq> []" by (simp add: corpus3_def)
  show ?thesis
    unfolding main_def g
    using n by (simp add: loadDocs_examples embedDocs_short a failed_def del: loadDocs.simps)
qed

lemma main_flat:
  "main worldFlat =
     \<lparr>saved = Some [(''A'', [neighbour ''B'' ''b.md'' 0, neighbour ''C'' ''c.md'' 0]),
                      (''B'', [neighbour ''A'' ''a.md'' 0, neighbour ''C'' ''c.md'' 0]),
                      (''C'', [neighbour ''A'' ''a.md'' 0, neighbour ''B'' ''b.md'' 0])],
      exitCode = 0\<rparr>"
proof -
  have g: "globFiles worldFlat = Inr [''a.md'', ''b.md'', ''c.md'']" "initExtractor worldFlat = None"
    "toString worldFlat = exampleToString" "writeResults worldFlat = None"
    by (simp_all add: worldFlat_def)
  have a: "allSimilarities exampleToString corpus3 [[], [], [], [], [], []] TOP_N =
      Inr [(''A'', [neighbour ''B'' ''b.md'' 0, neighbour ''C'' ''c.md'' 0]),
           (''B'', [neighbour ''A'' ''a.md'' 0, neighbour ''C'' ''c.md'' 0]),
           (''C'', [neighbour ''A'' ''a.md'' 0, neighbour ''B'' ''b.md'' 0])]"
    by (simp add: allSimilarities_def fromEntries_def slugKey_def TOP_N_def scenario_defs)
  have n: "corpus3 \<noteq> []" by (simp add: corpus3_def)
  show ?thesis
    unfolding main_def g
    using n by (simp add: loadDocs_examples embedDocs_flat a saveJson_def g
        del: loadDocs.simps)
qed

section \<open>Normalisation and similarity in exact arithmetic\<close>

text \<open>
  Claims C7 and C8 speak of results that are 1.0 within a floating-point tolerance. The
  rounding of IEEE-754 operations is not part of this model, so those bounds are not
  statements about it. What exact arithmetic gives is recorded here: a vector of length
  zero consists of zeros and is returned as it is, so no division by zero takes place;
  any other vector is scaled to length exactly 1; \<open>dot\<close> and \<open>cosineSimilarity\<close> are
  symmetric on vectors of equal length; and the similarity of a vector with itself is the
  square of its length.
\<close>

lemma sum_squares_nonneg: "0 \<le> (\<Sum>x\<leftarrow>v. x\<^sup>2)" for v :: "real list"
  by (induction v) simp_all

lemma sum_squares_zero_iff: "(\<Sum>x\<leftarrow>v. x\<^sup>2) = 0 \<longleftrightarrow> (\<forall>x\<in>set v. x = 0)" for v :: "real list"
proof (induction v)
  case Nil
  then show ?case by simp
next
  case (Cons y v)
  have "y\<^sup>2 + (\<Sum>x\<leftarrow>v. x\<^sup>2) = 0 \<longleftrightarrow> y\<^sup>2 = 0 \<and> (\<Sum>x\<leftarrow>v. x\<^sup>2) = 0"
    using sum_squares_nonneg [of v] by (simp add: add_nonneg_eq_0_iff)
  with Cons show ?case by simp
qed

lemma hypot_zero_iff: "hypot v = 0 \<longleftrightarrow> (\<forall>x\<in>set v. x = 0)"
  by (simp add: hypot_def sum_squares_zero_iff)

lemma normalize_zero: "hypot v = 0 \<Longrightarrow> normalize v = v"
  by (simp add: normalize_def)

lemma sum_squares_scaled:
  "(\<Sum>x\<leftarrow>map (\<lambda>x. x / c) v. x\<^sup>2) = (\<Sum>x\<leftarrow>v. x\<^sup>2) / c\<^sup>2" for v :: "real list"
  by (induction v) (simp_all add: power_divide add_divide_distrib)

lemma normalize_unit:
  assumes "hypot v \<noteq> 0"
  shows "hypot (normalize v) = 1"
proof -
  let ?s = "\<Sum>x\<leftarrow>v. x\<^sup>2"
  have s: "0 < ?s" using assms sum_squares_nonneg [of v] by (simp add: hypot_def less_le)
  have "normalize v = map (\<lambda>x. x / sqrt ?s) v"
    using assms by (simp add: normalize_def hypot_def)
  then have "hypot (normalize v) = sqrt (?s / (sqrt ?s)\<^sup>2)"
    unfolding hypot_def by (simp only: sum_squares_scaled)
  also have "\<dots> = 1" using s by simp
  finally show ?thesis .
qed

lemma reduce_from_closed:
  "i + length a \<le> length b \<Longrightarrow>
   reduce_from (dot_step (Some b)) a i (Num x) =
     Inr (Num (x + (\<Sum>(p, q)\<leftarrow>zip a (drop i b). p * q)))"
proof (induction a arbitrary: i x)
  case Nil
  then show ?case by simp
next
  case (Cons y a)
  then have i: "i < length b" and le: "Suc i + length a \<le> length b" by simp_all
  from i have d: "drop i b = b ! i # drop (Suc i) b" by (simp add: Cons_nth_drop_Suc)
  from Cons.IH [OF le, of "x + y * b ! i"] i show ?case
    by (simp add: d read_def add.assoc)
qed

lemma dot_closed:
  "length a \<le> length b \<Longrightarrow> dot (Some a) (Some b) = Inr (Num (\<Sum>(p, q)\<leftarrow>zip a b. p * q))"
  using reduce_from_closed [of 0 a b 0] by (simp add: dot_def)

lemma sum_products_commute:
  "(\<Sum>(p, q)\<leftarrow>zip a b. p * q) = (\<Sum>(p, q)\<leftarrow>zip b a. p * q)" for a b :: "real list"
proof (induction a arbitrary: b)
  case Nil
  then show ?case by simp
next
  case (Cons x a)
  then show ?case by (cases b) (simp_all add: mult.commute)
qed

lemma dot_symmetric:
  assumes "length a = length b"
  shows "dot (Some a) (Some b) = dot (Some b) (Some a)"
    and "cosineSimilarity (Some a) (Some b) = cosineSimilarity (Some b) (Some a)"
  using assms sum_products_commute [of a b] by (simp_all add: dot_closed cosineSimilarity_dot)

lemma dot_self: "dot (Some a) (Some a) = Inr (Num ((hypot a)\<^sup>2))"
proof -
  have "(\<Sum>(p, q)\<leftarrow>zip a a. p * q) = (\<Sum>x\<leftarrow>a. x\<^sup>2)"
    by (induction a) (simp_all add: power2_eq_square)
  then show ?thesis using sum_squares_nonneg [of a] by (simp add: dot_closed hypot_def)
qed

lemma dot_self_unit: "hypot a = 1 \<Longrightarrow> dot (Some a) (Some a) = Inr (Num 1)"
  by (simp add: dot_self)

section \<open>The plain text of a plain text\<close>

text \<open>
  A pattern that matches nowhere leaves the text as it is. The last steps of
  \<open>cleanText\<close> make every text tidy, and on a tidy text they change nothing; so the
  second pass over a plain text can only differ from it through the six patterns that
  come first.
\<close>

lemma nowhere_iff: "nowhere r s \<longleftrightarrow> (\<forall>i\<le>length s. ends r s i = [])"
  by (auto simp: nowhere_def list_all_iff less_Suc_eq_le)

lemma replace_from_nomatch:
  assumes "\<forall>j\<le>length s. ends r s j = []" "i \<le> length s"
  shows "replace_from r f s i = drop i s"
  using assms(2)
proof (induction "length s - i" arbitrary: i)
  case 0
  then have "i = length s" by simp
  with assms(1) show ?case by (subst replace_from.simps) simp
next
  case (Suc n)
  then have i: "i < length s" by simp
  with assms(1) have e: "ends r s i = []" by simp
  from Suc.hyps(1) [of "Suc i"] Suc.hyps(2) i
  have "replace_from r f s (Suc i) = drop (Suc i) s" by simp
  with i e show ?case
    by (subst replace_from.simps) (simp add: Cons_nth_drop_Suc)
qed

lemma replaceAll_nowhere: "nowhere r s \<Longrightarrow> replaceAll r f s = s"
  by (simp add: replaceAll_def nowhere_iff replace_from_nomatch)

text \<open>
  The replacement of every line feed by a blank leaves no line feed behind.
\<close>

lemma ends_LF: "ends LF s i = (if i < length s \<and> s ! i = CHR 0x0A then [Suc i] else [])"
  by (simp add: LF_def)

lemma replace_from_LF:
  assumes "i \<le> length s"
  shows "replace_from LF (\<lambda>m. '' '') s i =
           map (\<lambda>c. if c = CHR 0x0A then CHR '' '' else c) (drop i s)"
  using assms
proof (induction "length s - i" arbitrary: i)
  case 0
  then have "i = length s" by simp
  then show ?case by (subst replace_from.simps) (simp add: ends_LF)
next
  case (Suc n)
  then have i: "i < length s" by simp
  from Suc.hyps(1) [of "Suc i"] Suc.hyps(2) i
  have ih: "replace_from LF (\<lambda>m. '' '') s (Suc i) =
      map (\<lambda>c. if c = CHR 0x0A then CHR '' '' else c) (drop (Suc i) s)" by simp
  have d: "drop i s = s ! i # drop (Suc i) s" using i by (simp add: Cons_nth_drop_Suc)
  show ?case
    by (subst replace_from.simps) (use i ih in \<open>simp add: ends_LF d\<close>)
qed

lemma replaceAll_LF_noLF: "CHR 0x0A \<notin> set (replaceAll LF (\<lambda>m. '' '') s)"
  by (auto simp: replaceAll_def replace_from_LF)

text \<open>
  \<open>/\s{2,}/\<close> matches where two white-space characters meet, and its match ends with
  the run.
\<close>

lemma ends_Space:
  "ends (Atom Space) s i = (if i < length s \<and> is_space (s ! i) then [Suc i] else [])"
  by simp

lemma run_end_step:
  "i < length s \<Longrightarrow> is_space (s ! i) \<Longrightarrow> run_end s i = run_end s (Suc i)"
  by (simp add: run_end_def Cons_nth_drop_Suc [symmetric])

lemma run_end_stop:
  "i < length s \<Longrightarrow> \<not> is_space (s ! i) \<Longrightarrow> run_end s i = i"
  by (simp add: run_end_def Cons_nth_drop_Suc [symmetric])

lemma run_end_at_end: "length s \<le> i \<Longrightarrow> run_end s i = i"
  by (simp add: run_end_def)

lemma run_end_bounds: "i \<le> length s \<Longrightarrow> i \<le> run_end s i \<and> run_end s i \<le> length s"
proof -
  assume "i \<le> length s"
  have "length (takeWhile is_space (drop i s)) \<le> length (drop i s)"
    by (rule length_takeWhile_le)
  with \<open>i \<le> length s\<close> show ?thesis by (simp add: run_end_def)
qed

lemma run_end_not_space:
  "run_end s i < length s \<Longrightarrow> \<not> is_space (s ! run_end s i)"
proof -
  assume a: "run_end s i < length s"
  let ?t = "drop i s"
  let ?n = "length (takeWhile is_space ?t)"
  from a have n: "?n < length ?t" by (simp add: run_end_def)
  then have "\<not> is_space (?t ! ?n)" by (rule nth_length_takeWhile)
  moreover from a have "?t ! ?n = s ! (i + ?n)" by (simp add: run_end_def)
  ultimately show ?thesis by (simp add: run_end_def)
qed

lemma star_Space:
  assumes "i \<le> length s"
  shows "\<exists>rest. star_greedy (ends (Atom Space) s) (length s) i = run_end s i # rest"
  using assms
proof (induction "length s - i" arbitrary: i)
  case 0
  then have "i = length s" by simp
  then show ?case
    by (subst star_greedy.simps) (simp add: run_end_at_end)
next
  case (Suc n)
  then have i: "i < length s" by simp
  show ?case
  proof (cases "is_space (s ! i)")
    case True
    have "n = length s - Suc i" "Suc i \<le> length s" using Suc.hyps(2) i by simp_all
    from Suc.hyps(1) [OF this]
    obtain rest where "star_greedy (ends (Atom Space) s) (length s) (Suc i) = run_end s (Suc i) # rest"
      by blast
    with True i show ?thesis
      by (subst star_greedy.simps) (simp add: run_end_step)
  next
    case False
    with i show ?thesis
      by (subst star_greedy.simps) (simp add: run_end_stop)
  qed
qed

lemma ends_spaces2:
  "ends spaces2 s i =
     (if i < length s \<and> is_space (s ! i) \<and> Suc i < length s \<and> is_space (s ! Suc i)
      then star_greedy (ends (Atom Space) s) (length s) (Suc (Suc i)) else [])"
  by (auto simp: spaces2_def)

lemma ends_spaces2_match:
  assumes "i < length s" "is_space (s ! i)" "Suc i < length s" "is_space (s ! Suc i)"
  shows "\<exists>rest. ends spaces2 s i = run_end s i # rest"
    and "i < run_end s i" and "run_end s i \<le> length s"
proof -
  from assms(3) have le: "Suc (Suc i) \<le> length s" by simp
  from star_Space [OF le] assms show "\<exists>rest. ends spaces2 s i = run_end s i # rest"
    by (simp add: ends_spaces2 run_end_step)
  have "run_end s i = run_end s (Suc (Suc i))" using assms by (simp add: run_end_step)
  with run_end_bounds [OF le] show "i < run_end s i" "run_end s i \<le> length s" by simp_all
qed

lemma ends_spaces2_nomatch:
  "\<not> (i < length s \<and> is_space (s ! i) \<and> Suc i < length s \<and> is_space (s ! Suc i)) \<Longrightarrow>
   ends spaces2 s i = []"
  by (auto simp: ends_spaces2)

lemma collapse_at_end: "collapse_from s (length s) = []"
  by (subst replace_from.simps) (simp add: ends_spaces2)

lemma collapse_nomatch:
  assumes "i < length s" "\<not> (is_space (s ! i) \<and> Suc i < length s \<and> is_space (s ! Suc i))"
  shows "collapse_from s i = s ! i # collapse_from s (Suc i)"
proof -
  from assms have "ends spaces2 s i = []" by (auto simp: ends_spaces2)
  with assms(1) show ?thesis by (subst replace_from.simps) simp
qed

lemma collapse_match:
  assumes "i < length s" "is_space (s ! i)" "Suc i < length s" "is_space (s ! Suc i)"
  shows "collapse_from s i = CHR '' '' # collapse_from s (run_end s i)"
proof -
  from ends_spaces2_match [OF assms] obtain rest where
    e: "ends spaces2 s i = run_end s i # rest" and b: "i < run_end s i" "run_end s i \<le> length s"
    by blast
  with assms(1) show ?thesis by (subst replace_from.simps) simp
qed

lemma collapse_invariant:
  assumes "i \<le> length s"
  shows "successively notBothSpaces (collapse_from s i)
         \<and> (i < length s \<and> \<not> is_space (s ! i) \<longrightarrow>
              collapse_from s i \<noteq> [] \<and> hd (collapse_from s i) = s ! i)
         \<and> set (collapse_from s i) \<subseteq> set (drop i s) \<union> {CHR '' ''}"
  using assms
proof (induction "length s - i" arbitrary: i rule: less_induct)
  case less
  show ?case
  proof (cases "i = length s")
    case True
    then show ?thesis by (simp add: collapse_at_end)
  next
    case False
    with less.prems have i: "i < length s" by simp
    then have d: "drop i s = s ! i # drop (Suc i) s" by (simp add: Cons_nth_drop_Suc)
    show ?thesis
    proof (cases "is_space (s ! i) \<and> Suc i < length s \<and> is_space (s ! Suc i)")
      case True
      let ?e = "run_end s i"
      from ends_spaces2_match [of i s] i True have b: "i < ?e" "?e \<le> length s" by simp_all
      have eq: "collapse_from s i = CHR '' '' # collapse_from s ?e"
        using collapse_match [of i s] i True by simp
      have "length s - ?e < length s - i" using b i by simp
      from less.hyps [OF this b(2)]
      have ih1: "successively notBothSpaces (collapse_from s ?e)"
        and ih2: "?e < length s \<and> \<not> is_space (s ! ?e) \<longrightarrow>
            collapse_from s ?e \<noteq> [] \<and> hd (collapse_from s ?e) = s ! ?e"
        and ih3: "set (collapse_from s ?e) \<subseteq> set (drop ?e s) \<union> {CHR '' ''}"
        by simp_all
      have next_ok: "collapse_from s ?e = [] \<or> \<not> is_space (hd (collapse_from s ?e))"
      proof (cases "?e < length s")
        case True
        with run_end_not_space [of s i] ih2 show ?thesis by simp
      next
        case False
        with b(2) have "?e = length s" by simp
        then show ?thesis by (simp add: collapse_at_end)
      qed
      have 1: "successively notBothSpaces (collapse_from s i)"
        unfolding eq using ih1 next_ok
        by (auto simp: successively_Cons notBothSpaces_def)
      have "set (drop ?e s) \<subseteq> set (drop i s)"
        using b(1) by (simp add: set_drop_subset_set_drop)
      with ih3 have 3: "set (collapse_from s i) \<subseteq> set (drop i s) \<union> {CHR '' ''}"
        unfolding eq by auto
      from 1 3 True show ?thesis by simp
    next
      case False
      have eq: "collapse_from s i = s ! i # collapse_from s (Suc i)"
        using collapse_nomatch [OF i False] .
      have "length s - Suc i < length s - i" using i by simp
      moreover have "Suc i \<le> length s" using i by simp
      ultimately have ih1: "successively notBothSpaces (collapse_from s (Suc i))"
        and ih2: "Suc i < length s \<and> \<not> is_space (s ! Suc i) \<longrightarrow>
            collapse_from s (Suc i) \<noteq> [] \<and> hd (collapse_from s (Suc i)) = s ! Suc i"
        and ih3: "set (collapse_from s (Suc i)) \<subseteq> set (drop (Suc i) s) \<union> {CHR '' ''}"
        using less.hyps [of "Suc i"] by simp_all
      have next_ok: "collapse_from s (Suc i) = []
          \<or> notBothSpaces (s ! i) (hd (collapse_from s (Suc i)))"
      proof (cases "Suc i < length s")
        case True
        show ?thesis
        proof (cases "is_space (s ! i)")
          case sp: True
          with False True have "\<not> is_space (s ! Suc i)" by simp
          with ih2 True show ?thesis by (simp add: notBothSpaces_def)
        next
          case False
          then show ?thesis by (simp add: notBothSpaces_def)
        qed
      next
        case False
        with i have "Suc i = length s" by simp
        then show ?thesis by (simp add: collapse_at_end)
      qed
      have 1: "successively notBothSpaces (collapse_from s i)"
        unfolding eq using ih1 next_ok by (auto simp: successively_Cons)
      have 2: "collapse_from s i \<noteq> [] \<and> hd (collapse_from s i) = s ! i"
        unfolding eq by simp
      have 3: "set (collapse_from s i) \<subseteq> set (drop i s) \<union> {CHR '' ''}"
        unfolding eq d using ih3 by auto
      from 1 2 3 show ?thesis by simp
    qed
  qed
qed

lemma replaceAll_spaces2:
  "successively notBothSpaces (replaceAll spaces2 (\<lambda>m. '' '') s)"
  "set (replaceAll spaces2 (\<lambda>m. '' '') s) \<subseteq> set s \<union> {CHR '' ''}"
  using collapse_invariant [of 0 s] by (simp_all add: replaceAll_def)

text \<open>\<open>trim\<close> keeps a text free of runs and removes the white space at both ends.\<close>

lemma notBothSpaces_sym: "notBothSpaces c d = notBothSpaces d c"
  by (auto simp: notBothSpaces_def)

lemma successively_dropWhile:
  "successively P xs \<Longrightarrow> successively P (dropWhile Q xs)"
proof -
  assume a: "successively P xs"
  have "xs = takeWhile Q xs @ dropWhile Q xs" by simp
  with a have "successively P (takeWhile Q xs @ dropWhile Q xs)" by simp
  then show ?thesis unfolding successively_append_iff by simp
qed

lemma successively_rev_sym:
  "(\<And>x y. P x y = P y x) \<Longrightarrow> successively P (rev xs) = successively P xs"
  by (simp add: successively_rev cong: successively_cong)

lemma trim_set: "set (trim s) \<subseteq> set s"
  by (auto simp: trim_def dest!: set_dropWhileD)

lemma trim_successively:
  assumes "successively notBothSpaces s"
  shows "successively notBothSpaces (trim s)"
proof -
  have r: "successively notBothSpaces (rev xs) = successively notBothSpaces xs" for xs
    by (rule successively_rev_sym) (rule notBothSpaces_sym)
  from assms show ?thesis
    by (simp add: trim_def r successively_dropWhile)
qed

lemma trim_ends:
  "trim s = [] \<or> (\<not> is_space (hd (trim s)) \<and> \<not> is_space (last (trim s)))"
proof (cases "trim s = []")
  case True
  then show ?thesis by simp
next
  case False
  let ?a = "dropWhile is_space s"
  let ?b = "dropWhile is_space (rev ?a)"
  from False have b: "?b \<noteq> []" by (simp add: trim_def)
  then have a: "?a \<noteq> []" by (cases "?a = []") simp_all
  from b have "\<not> is_space (hd ?b)" by (rule hd_dropWhile)
  then have 1: "\<not> is_space (last (trim s))"
    using b by (simp add: trim_def last_rev)
  have "rev ?a = takeWhile is_space (rev ?a) @ ?b" by simp
  then have "last (rev ?a) = last ?b" using b by (metis last_appendR)
  then have "last ?b = hd ?a" using a by (simp add: last_rev)
  moreover from a have "\<not> is_space (hd ?a)" by (rule hd_dropWhile)
  ultimately have 2: "\<not> is_space (hd (trim s))"
    using b by (simp add: trim_def hd_rev)
  from 1 2 show ?thesis by simp
qed

lemma trim_id:
  assumes "s = [] \<or> (\<not> is_space (hd s) \<and> \<not> is_space (last s))"
  shows "trim s = s"
proof (cases "s = []")
  case True
  then show ?thesis by (simp add: trim_def)
next
  case False
  with assms have h: "\<not> is_space (hd s)" and l: "\<not> is_space (last s)" by simp_all
  from False h have 1: "dropWhile is_space s = s" by (cases s) simp_all
  from False l have "\<not> is_space (hd (rev s))" by (simp add: hd_rev)
  with False have 2: "dropWhile is_space (rev s) = rev s" by (cases "rev s") simp_all
  from 1 2 show ?thesis by (simp add: trim_def)
qed

lemma tidy_cleanText: "tidy (cleanText x)"
proof -
  obtain t where c: "cleanText x = trim (replaceAll spaces2 (\<lambda>m. '' '') (replaceAll LF (\<lambda>m. '' '') t))"
    by (simp add: cleanText_def)
  let ?u = "replaceAll LF (\<lambda>m. '' '') t"
  let ?v = "replaceAll spaces2 (\<lambda>m. '' '') ?u"
  have "CHR 0x0A \<notin> set ?u" by (rule replaceAll_LF_noLF)
  with replaceAll_spaces2(2) [of ?u] have "CHR 0x0A \<notin> set ?v" by auto
  with trim_set [of ?v] have 1: "CHR 0x0A \<notin> set (trim ?v)" by auto
  have 2: "successively notBothSpaces (trim ?v)"
    by (rule trim_successively) (rule replaceAll_spaces2)
  from 1 2 trim_ends [of ?v] show ?thesis unfolding c tidy_def by simp
qed

lemma nowhere_LF_patterns:
  assumes "CHR 0x0A \<notin> set s"
  shows "nowhere breaks3 s" "nowhere breaks2 s" "nowhere LF s"
proof -
  have "ends LF s i = []" for i
  proof (cases "i < length s")
    case True
    then have "s ! i \<in> set s" by (rule nth_mem)
    with assms have "s ! i \<noteq> CHR 0x0A" by metis
    then show ?thesis by (simp add: ends_LF)
  next
    case False
    then show ?thesis by (simp add: ends_LF)
  qed
  then show "nowhere breaks3 s" "nowhere breaks2 s" "nowhere LF s"
    by (simp_all add: nowhere_iff breaks3_def breaks2_def)
qed

lemma successively_nth:
  "successively P xs \<Longrightarrow> Suc i < length xs \<Longrightarrow> P (xs ! i) (xs ! Suc i)"
proof (induction xs arbitrary: i)
  case Nil
  then show ?case by simp
next
  case (Cons x xs)
  then show ?case
    by (cases i; cases xs) (auto simp: successively_Cons)
qed

lemma nowhere_spaces2:
  assumes "successively notBothSpaces s"
  shows "nowhere spaces2 s"
proof -
  have "ends spaces2 s i = []" for i
  proof (rule ends_spaces2_nomatch)
    show "\<not> (i < length s \<and> is_space (s ! i) \<and> Suc i < length s \<and> is_space (s ! Suc i))"
      using successively_nth [OF assms, of i] by (auto simp: notBothSpaces_def)
  qed
  then show ?thesis by (simp add: nowhere_iff)
qed

lemma cleanText_fixed:
  assumes "tidy y" "boilerplateFree y"
  shows "cleanText y = y"
proof -
  from assms(1) have lf: "CHR 0x0A \<notin> set y" and su: "successively notBothSpaces y"
    and en: "y = [] \<or> (\<not> is_space (hd y) \<and> \<not> is_space (last y))"
    by (simp_all add: tidy_def)
  from assms(2) have b: "nowhere importLine y" "nowhere exportLine y" "nowhere headingLine y"
    "nowhere capsLine y" "nowhere tableRow y" "nowhere ruleMarker y"
    by (simp_all add: boilerplateFree_def)
  show ?thesis
    unfolding cleanText_def
    by (simp add: replaceAll_nowhere b nowhere_LF_patterns [OF lf] nowhere_spaces2 [OF su]
        trim_id [OF en])
qed

text \<open>A tidy text followed by one line feed is cleaned back to the tidy text.\<close>

lemma nowhere_breaks_final_LF:
  assumes "CHR 0x0A \<notin> set y"
  shows "nowhere breaks3 (y @ [CHR 0x0A])" "nowhere breaks2 (y @ [CHR 0x0A])"
proof -
  let ?t = "y @ [CHR 0x0A]"
  have one: "ends LF ?t i = [] \<or> (ends LF ?t i = [Suc i] \<and> ends LF ?t (Suc i) = [])" for i
  proof (cases "i < length y")
    case True
    then have "y ! i \<in> set y" by (rule nth_mem)
    with assms have "y ! i \<noteq> CHR 0x0A" by metis
    with True show ?thesis by (simp add: ends_LF nth_append)
  next
    case False
    then show ?thesis by (simp add: ends_LF nth_append)
  qed
  have "ends breaks2 ?t i = []" for i
    using one [of i] by (auto simp: breaks2_def)
  moreover have "ends breaks3 ?t i = []" for i
    using one [of i] by (auto simp: breaks3_def)
  ultimately show "nowhere breaks3 ?t" "nowhere breaks2 ?t"
    by (simp_all add: nowhere_iff)
qed

lemma replaceAll_LF_final:
  assumes "CHR 0x0A \<notin> set y"
  shows "replaceAll LF (\<lambda>m. '' '') (y @ [CHR 0x0A]) = y @ '' ''"
proof -
  have "map (\<lambda>c. if c = CHR 0x0A then CHR '' '' else c) y = y"
    using assms by (induction y) auto
  then show ?thesis by (simp add: replaceAll_def replace_from_LF)
qed

lemma is_space_blank [simp]: "is_space CHR '' ''"
  by (simp add: is_space_def)

lemma successively_final_blank:
  assumes "successively notBothSpaces y" "y = [] \<or> \<not> is_space (last y)"
  shows "successively notBothSpaces (y @ '' '')"
  using assms by (auto simp: successively_append_iff notBothSpaces_def)

lemma trim_final_blank:
  assumes "y = [] \<or> (\<not> is_space (hd y) \<and> \<not> is_space (last y))"
  shows "trim (y @ '' '') = y"
proof (cases "y = []")
  case True
  then show ?thesis by (simp add: trim_def)
next
  case False
  with assms have h: "\<not> is_space (hd y)" and l: "\<not> is_space (last y)" by simp_all
  from False h have 1: "dropWhile is_space (y @ '' '') = y @ '' ''" by (cases y) simp_all
  from False l have "\<not> is_space (hd (rev y))" by (simp add: hd_rev)
  with False have 2: "dropWhile is_space (rev y) = rev y" by (cases "rev y") simp_all
  from 1 2 show ?thesis by (simp add: trim_def)
qed

lemma cleanText_final_LF:
  assumes "tidy y" "boilerplateFree (y @ [CHR 0x0A])"
  shows "cleanText (y @ [CHR 0x0A]) = y"
proof -
  let ?t = "y @ [CHR 0x0A]"
  from assms(1) have lf: "CHR 0x0A \<notin> set y" and su: "successively notBothSpaces y"
    and en: "y = [] \<or> (\<not> is_space (hd y) \<and> \<not> is_space (last y))"
    by (simp_all add: tidy_def)
  from assms(2) have b: "nowhere importLine ?t" "nowhere exportLine ?t" "nowhere headingLine ?t"
    "nowhere capsLine ?t" "nowhere tableRow ?t" "nowhere ruleMarker ?t"
    by (simp_all add: boilerplateFree_def)
  have sp: "nowhere spaces2 (y @ '' '')"
    by (rule nowhere_spaces2) (use su en in \<open>auto intro: successively_final_blank\<close>)
  show ?thesis
    unfolding cleanText_def
    by (simp add: replaceAll_nowhere b nowhere_breaks_final_LF [OF lf] replaceAll_LF_final [OF lf]
        sp trim_final_blank [OF en])
qed

text \<open>
  Claim C9, amended. Let \<open>y\<close> be the plain text of \<open>x\<close>. If the markup stripper
  returns \<open>y\<close> unchanged, or with a final line feed, and none of the six boilerplate
  patterns matches in what it returns, then the plain text of \<open>y\<close> is \<open>y\<close>.
\<close>

theorem getPlainText_stable:
  assumes "getPlainText stripper x = Inr y"
    and "stripper y = Inr t" and "t = y \<or> t = y @ [CHR 0x0A]" and "boilerplateFree t"
  shows "getPlainText stripper y = Inr y"
proof -
  from assms(1) obtain u where "y = cleanText u"
    by (auto simp: getPlainText_def split: sum.splits)
  then have tidy: "tidy y" by (simp add: tidy_cleanText)
  have "cleanText t = y"
    using assms(3,4) tidy by (auto simp: cleanText_fixed cleanText_final_LF)
  with assms(2) show ?thesis by (simp add: getPlainText_def)
qed

theorem getPlainText_stable_witness:
  "getPlainText printedParagraph greeting = Inr ''Hello world again''
   \<and> getPlainText printedParagraph ''Hello world again'' = Inr ''Hello world again''"
proof -
  have 1: "getPlainText printedParagraph greeting = Inr ''Hello world again''"
    by code_simp
  have 2: "printedParagraph ''Hello world again'' = Inr (''Hello world again'' @ [CHR 0x0A])"
    by (simp add: printedParagraph_def)
  have 3: "''Hello world again'' @ [CHR 0x0A] = ''Hello world again''
      \<or> ''Hello world again'' @ [CHR 0x0A] = ''Hello world again'' @ [CHR 0x0A]"
    by simp
  have 4: "boilerplateFree (''Hello world again'' @ [CHR 0x0A])"
    by code_simp
  from getPlainText_stable [OF 1 2 3 4] 1 show ?thesis by simp
qed

text \<open>
  Claim C9, as stated, fails on a text without markup. The two lines \<open>import\<close> and
  \<open>foo\<close> match none of the six patterns, since the first line has no blank after
  \<open>import\<close>; joined by a blank they become the plain text \<open>import foo\<close>, which the
  second pass deletes as an import line. This is so under both strippers.
\<close>

theorem getPlainText_not_idempotent_counterexample:
  "boilerplateFree importFoo
   \<and> getPlainText Inr importFoo = Inr ''import foo''
   \<and> getPlainText Inr ''import foo'' = Inr []
   \<and> getPlainText printedParagraph importFoo = Inr ''import foo''
   \<and> getPlainText printedParagraph ''import foo'' = Inr []"
  by code_simp

end
